theory Spec2Isabelle
  imports Complex_Main "HOL-Library.Monad_Syntax"
begin

section \<open>Keys and the keyed simplex kernel\<close>

text \<open>
  The four key classes (NodeKey, EdgeKey, FaceKey, TetrahedronKey) wrap an index into the
  pool of their kind. A default-constructed key (\<^verbatim>\<open>EdgeKey()\<close>, \<^verbatim>\<open>FaceKey()\<close>,
  \<^verbatim>\<open>TetrahedronKey()\<close>) is the invalid key; it is \<open>Undefined\<close> here.
\<close>

datatype key = Key nat | Undefined

definition is_valid :: "key \<Rightarrow> bool" where
  "is_valid k = (k \<noteq> Undefined)"

type_synonym vec3 = "real \<times> real \<times> real"

record node_type =
  n_get_pos :: vec3
  n_get_co_boundary :: "key list"
  n_is_interface :: bool
  n_is_boundary :: bool
  n_is_crossing :: bool

record edge_type =
  e_get_boundary :: "key list"
  e_get_co_boundary :: "key list"
  e_is_interface :: bool
  e_is_boundary :: bool
  e_is_crossing :: bool

record face_type =
  f_get_boundary :: "key list"
  f_get_co_boundary :: "key list"
  f_is_interface :: bool
  f_is_boundary :: bool

record tetrahedron_type =
  t_get_boundary :: "key list"
  t_label :: int

text \<open>
  Modelled from the spec: the object pools of \<^verbatim>\<open>is_mesh/is_mesh.h\<close> (class t4mesh and its
  kernels), which are not among the sources. A pool is a vector of slots indexed by key; a
  removed simplex keeps its slot, marked non-existent (\<open>None\<close>), and \<open>create\<close> appends a
  fresh slot.
\<close>

type_synonym 'a kernel = "'a option list"

definition lookup :: "'a kernel \<Rightarrow> key \<Rightarrow> 'a option" where
  "lookup p k = (case k of Key i \<Rightarrow> (if i < length p then p ! i else None) | Undefined \<Rightarrow> None)"

definition replace :: "'a kernel \<Rightarrow> key \<Rightarrow> 'a \<Rightarrow> 'a kernel" where
  "replace p k v = (case k of Key i \<Rightarrow> p[i := Some v] | Undefined \<Rightarrow> p)"

record mesh =
  m_node_kernel :: "node_type kernel"
  m_edge_kernel :: "edge_type kernel"
  m_face_kernel :: "face_type kernel"
  m_tetrahedron_kernel :: "tetrahedron_type kernel"

text \<open>
  \<^verbatim>\<open>get(k)\<close> of the API is \<^verbatim>\<open>mesh.find_node(k)\<close> and its siblings. Reading a key that
  does not exist is a programming error (an assertion failure or undefined behaviour); it
  is the value \<open>None\<close> of every operation below.
\<close>

definition find_node :: "mesh \<Rightarrow> key \<Rightarrow> node_type option" where
  "find_node m k = lookup (m_node_kernel m) k"

definition find_edge :: "mesh \<Rightarrow> key \<Rightarrow> edge_type option" where
  "find_edge m k = lookup (m_edge_kernel m) k"

definition find_face :: "mesh \<Rightarrow> key \<Rightarrow> face_type option" where
  "find_face m k = lookup (m_face_kernel m) k"

definition find_tetrahedron :: "mesh \<Rightarrow> key \<Rightarrow> tetrahedron_type option" where
  "find_tetrahedron m k = lookup (m_tetrahedron_kernel m) k"

definition exists_node :: "mesh \<Rightarrow> key \<Rightarrow> bool" where
  "exists_node m k = (find_node m k \<noteq> None)"

definition exists_edge :: "mesh \<Rightarrow> key \<Rightarrow> bool" where
  "exists_edge m k = (find_edge m k \<noteq> None)"

definition exists_face :: "mesh \<Rightarrow> key \<Rightarrow> bool" where
  "exists_face m k = (find_face m k \<noteq> None)"

definition exists_tetrahedron :: "mesh \<Rightarrow> key \<Rightarrow> bool" where
  "exists_tetrahedron m k = (find_tetrahedron m k \<noteq> None)"

text \<open>
  \<^verbatim>\<open>get(k)\<close> returns a reference into the pool; a setter called on it overwrites the
  slot of \<open>k\<close>.
\<close>

definition put_node :: "mesh \<Rightarrow> key \<Rightarrow> node_type \<Rightarrow> mesh" where
  "put_node m k v = m\<lparr>m_node_kernel := replace (m_node_kernel m) k v\<rparr>"

definition put_edge :: "mesh \<Rightarrow> key \<Rightarrow> edge_type \<Rightarrow> mesh" where
  "put_edge m k v = m\<lparr>m_edge_kernel := replace (m_edge_kernel m) k v\<rparr>"

definition put_face :: "mesh \<Rightarrow> key \<Rightarrow> face_type \<Rightarrow> mesh" where
  "put_face m k v = m\<lparr>m_face_kernel := replace (m_face_kernel m) k v\<rparr>"

definition put_tetrahedron :: "mesh \<Rightarrow> key \<Rightarrow> tetrahedron_type \<Rightarrow> mesh" where
  "put_tetrahedron m k v = m\<lparr>m_tetrahedron_kernel := replace (m_tetrahedron_kernel m) k v\<rparr>"

section \<open>Simplex sets\<close>

text \<open>
  Modelled from the spec: the class \<^verbatim>\<open>simplex_set\<close> of the missing kernel. It holds four
  sets of keys in insertion order, each key at most once.
\<close>

record simplex_set =
  ss_nodes :: "key list"
  ss_edges :: "key list"
  ss_faces :: "key list"
  ss_tetrahedra :: "key list"

definition insert_key :: "key \<Rightarrow> key list \<Rightarrow> key list" where
  "insert_key k ks = (if k \<in> set ks then ks else ks @ [k])"

fun insert_keys :: "key list \<Rightarrow> key list \<Rightarrow> key list" where
  "insert_keys [] acc = acc"
| "insert_keys (k # ks) acc = insert_keys ks (insert_key k acc)"

definition erase_key :: "key \<Rightarrow> key list \<Rightarrow> key list" where
  "erase_key k ks = removeAll k ks"

definition contains_key :: "key list \<Rightarrow> key \<Rightarrow> bool" where
  "contains_key ks k = (k \<in> set ks)"

definition intersection_keys :: "key list \<Rightarrow> key list \<Rightarrow> key list" where
  "intersection_keys ks1 ks2 = filter (\<lambda>k. k \<in> set ks2) ks1"

definition difference_keys :: "key list \<Rightarrow> key list \<Rightarrow> key list" where
  "difference_keys ks1 ks2 =
     filter (\<lambda>k. k \<notin> set ks2) ks1 @ filter (\<lambda>k. k \<notin> set ks1) ks2"

definition ss_empty :: simplex_set where
  "ss_empty = \<lparr>ss_nodes = [], ss_edges = [], ss_faces = [], ss_tetrahedra = []\<rparr>"

definition ss_insert_node :: "simplex_set \<Rightarrow> key \<Rightarrow> simplex_set" where
  "ss_insert_node s k = s\<lparr>ss_nodes := insert_key k (ss_nodes s)\<rparr>"

definition ss_erase_tetrahedron :: "simplex_set \<Rightarrow> key \<Rightarrow> simplex_set" where
  "ss_erase_tetrahedron s k = s\<lparr>ss_tetrahedra := erase_key k (ss_tetrahedra s)\<rparr>"

definition ss_contains_tetrahedron :: "simplex_set \<Rightarrow> key \<Rightarrow> bool" where
  "ss_contains_tetrahedron s k = contains_key (ss_tetrahedra s) k"

definition ss_intersection :: "simplex_set \<Rightarrow> simplex_set \<Rightarrow> simplex_set" where
  "ss_intersection s1 s2 =
     \<lparr>ss_nodes = intersection_keys (ss_nodes s1) (ss_nodes s2),
      ss_edges = intersection_keys (ss_edges s1) (ss_edges s2),
      ss_faces = intersection_keys (ss_faces s1) (ss_faces s2),
      ss_tetrahedra = intersection_keys (ss_tetrahedra s1) (ss_tetrahedra s2)\<rparr>"

definition ss_difference :: "simplex_set \<Rightarrow> simplex_set \<Rightarrow> simplex_set" where
  "ss_difference s1 s2 =
     \<lparr>ss_nodes = difference_keys (ss_nodes s1) (ss_nodes s2),
      ss_edges = difference_keys (ss_edges s1) (ss_edges s2),
      ss_faces = difference_keys (ss_faces s1) (ss_faces s2),
      ss_tetrahedra = difference_keys (ss_tetrahedra s1) (ss_tetrahedra s2)\<rparr>"

definition size_tetrahedra :: "simplex_set \<Rightarrow> nat" where
  "size_tetrahedra s = length (ss_tetrahedra s)"

definition size_faces :: "simplex_set \<Rightarrow> nat" where
  "size_faces s = length (ss_faces s)"

definition size_edges :: "simplex_set \<Rightarrow> nat" where
  "size_edges s = length (ss_edges s)"

definition size_nodes :: "simplex_set \<Rightarrow> nat" where
  "size_nodes s = length (ss_nodes s)"

section \<open>Topology navigator\<close>

text \<open>
  Modelled from the spec: \<^verbatim>\<open>star\<close>, \<^verbatim>\<open>closure\<close> and \<^verbatim>\<open>link\<close> of the missing kernel.
  The star of a simplex accumulates the simplex and everything reached through the
  co-boundary lists; the closure accumulates the simplex and everything reached through
  the boundary lists; the link is the closure of the star minus the closure. Each list
  that is walked belongs to a simplex that has to exist.
\<close>

fun co_boundary_edges :: "mesh \<Rightarrow> key list \<Rightarrow> key list \<Rightarrow> key list option" where
  "co_boundary_edges m [] acc = Some acc"
| "co_boundary_edges m (n # ns) acc =
     do { nc \<leftarrow> find_node m n;
          co_boundary_edges m ns (insert_keys (n_get_co_boundary nc) acc) }"

fun co_boundary_faces :: "mesh \<Rightarrow> key list \<Rightarrow> key list \<Rightarrow> key list option" where
  "co_boundary_faces m [] acc = Some acc"
| "co_boundary_faces m (e # es) acc =
     do { ec \<leftarrow> find_edge m e;
          co_boundary_faces m es (insert_keys (e_get_co_boundary ec) acc) }"

fun co_boundary_tetrahedra :: "mesh \<Rightarrow> key list \<Rightarrow> key list \<Rightarrow> key list option" where
  "co_boundary_tetrahedra m [] acc = Some acc"
| "co_boundary_tetrahedra m (f # fs) acc =
     do { fc \<leftarrow> find_face m f;
          co_boundary_tetrahedra m fs (insert_keys (f_get_co_boundary fc) acc) }"

fun boundary_faces :: "mesh \<Rightarrow> key list \<Rightarrow> key list \<Rightarrow> key list option" where
  "boundary_faces m [] acc = Some acc"
| "boundary_faces m (t # ts) acc =
     do { tc \<leftarrow> find_tetrahedron m t;
          boundary_faces m ts (insert_keys (t_get_boundary tc) acc) }"

fun boundary_edges :: "mesh \<Rightarrow> key list \<Rightarrow> key list \<Rightarrow> key list option" where
  "boundary_edges m [] acc = Some acc"
| "boundary_edges m (f # fs) acc =
     do { fc \<leftarrow> find_face m f;
          boundary_edges m fs (insert_keys (f_get_boundary fc) acc) }"

fun boundary_nodes :: "mesh \<Rightarrow> key list \<Rightarrow> key list \<Rightarrow> key list option" where
  "boundary_nodes m [] acc = Some acc"
| "boundary_nodes m (e # es) acc =
     do { ec \<leftarrow> find_edge m e;
          boundary_nodes m es (insert_keys (e_get_boundary ec) acc) }"

definition star_set :: "mesh \<Rightarrow> simplex_set \<Rightarrow> simplex_set option" where
  "star_set m s =
     do { es \<leftarrow> co_boundary_edges m (ss_nodes s) (ss_edges s);
          fs \<leftarrow> co_boundary_faces m es (ss_faces s);
          ts \<leftarrow> co_boundary_tetrahedra m fs (ss_tetrahedra s);
          Some \<lparr>ss_nodes = ss_nodes s, ss_edges = es, ss_faces = fs, ss_tetrahedra = ts\<rparr> }"

definition closure_set :: "mesh \<Rightarrow> simplex_set \<Rightarrow> simplex_set option" where
  "closure_set m s =
     do { fs \<leftarrow> boundary_faces m (ss_tetrahedra s) (ss_faces s);
          es \<leftarrow> boundary_edges m fs (ss_edges s);
          ns \<leftarrow> boundary_nodes m es (ss_nodes s);
          Some \<lparr>ss_nodes = ns, ss_edges = es, ss_faces = fs, ss_tetrahedra = ss_tetrahedra s\<rparr> }"

definition star_node :: "mesh \<Rightarrow> key \<Rightarrow> simplex_set option" where
  "star_node m n = star_set m (ss_empty\<lparr>ss_nodes := [n]\<rparr>)"

definition star_edge :: "mesh \<Rightarrow> key \<Rightarrow> simplex_set option" where
  "star_edge m e = star_set m (ss_empty\<lparr>ss_edges := [e]\<rparr>)"

definition star_face :: "mesh \<Rightarrow> key \<Rightarrow> simplex_set option" where
  "star_face m f = star_set m (ss_empty\<lparr>ss_faces := [f]\<rparr>)"

definition closure_edge :: "mesh \<Rightarrow> key \<Rightarrow> simplex_set option" where
  "closure_edge m e = closure_set m (ss_empty\<lparr>ss_edges := [e]\<rparr>)"

definition closure_face :: "mesh \<Rightarrow> key \<Rightarrow> simplex_set option" where
  "closure_face m f = closure_set m (ss_empty\<lparr>ss_faces := [f]\<rparr>)"

definition closure_tetrahedron :: "mesh \<Rightarrow> key \<Rightarrow> simplex_set option" where
  "closure_tetrahedron m t = closure_set m (ss_empty\<lparr>ss_tetrahedra := [t]\<rparr>)"

definition link_edge :: "mesh \<Rightarrow> key \<Rightarrow> simplex_set option" where
  "link_edge m e =
     do { st \<leftarrow> star_edge m e;
          cl_st \<leftarrow> closure_set m st;
          cl \<leftarrow> closure_edge m e;
          Some (ss_difference cl_st cl) }"


section \<open>Label functions\<close>

definition is_interface_node :: "mesh \<Rightarrow> key \<Rightarrow> bool option" where
  "is_interface_node m k = map_option n_is_interface (find_node m k)"

definition is_boundary_node :: "mesh \<Rightarrow> key \<Rightarrow> bool option" where
  "is_boundary_node m k = map_option n_is_boundary (find_node m k)"

definition is_crossing_node :: "mesh \<Rightarrow> key \<Rightarrow> bool option" where
  "is_crossing_node m k = map_option n_is_crossing (find_node m k)"

definition is_interface_edge :: "mesh \<Rightarrow> key \<Rightarrow> bool option" where
  "is_interface_edge m k = map_option e_is_interface (find_edge m k)"

definition is_boundary_edge :: "mesh \<Rightarrow> key \<Rightarrow> bool option" where
  "is_boundary_edge m k = map_option e_is_boundary (find_edge m k)"

definition is_crossing_edge :: "mesh \<Rightarrow> key \<Rightarrow> bool option" where
  "is_crossing_edge m k = map_option e_is_crossing (find_edge m k)"

definition is_interface_face :: "mesh \<Rightarrow> key \<Rightarrow> bool option" where
  "is_interface_face m k = map_option f_is_interface (find_face m k)"

definition is_boundary_face :: "mesh \<Rightarrow> key \<Rightarrow> bool option" where
  "is_boundary_face m k = map_option f_is_boundary (find_face m k)"

definition get_label :: "mesh \<Rightarrow> key \<Rightarrow> int option" where
  "get_label m t = map_option t_label (find_tetrahedron m t)"

definition set_interface_node :: "mesh \<Rightarrow> key \<Rightarrow> bool \<Rightarrow> mesh option" where
  "set_interface_node m k b =
     do { nc \<leftarrow> find_node m k;
          Some (put_node m k (nc\<lparr>n_is_interface := b\<rparr>)) }"

definition set_boundary_node :: "mesh \<Rightarrow> key \<Rightarrow> bool \<Rightarrow> mesh option" where
  "set_boundary_node m k b =
     do { nc \<leftarrow> find_node m k;
          Some (put_node m k (nc\<lparr>n_is_boundary := b\<rparr>)) }"

definition set_crossing_node :: "mesh \<Rightarrow> key \<Rightarrow> bool \<Rightarrow> mesh option" where
  "set_crossing_node m k b =
     do { nc \<leftarrow> find_node m k;
          Some (put_node m k (nc\<lparr>n_is_crossing := b\<rparr>)) }"

definition set_interface_edge :: "mesh \<Rightarrow> key \<Rightarrow> bool \<Rightarrow> mesh option" where
  "set_interface_edge m k b =
     do { ec \<leftarrow> find_edge m k;
          Some (put_edge m k (ec\<lparr>e_is_interface := b\<rparr>)) }"

definition set_boundary_edge :: "mesh \<Rightarrow> key \<Rightarrow> bool \<Rightarrow> mesh option" where
  "set_boundary_edge m k b =
     do { ec \<leftarrow> find_edge m k;
          Some (put_edge m k (ec\<lparr>e_is_boundary := b\<rparr>)) }"

definition set_crossing_edge :: "mesh \<Rightarrow> key \<Rightarrow> bool \<Rightarrow> mesh option" where
  "set_crossing_edge m k b =
     do { ec \<leftarrow> find_edge m k;
          Some (put_edge m k (ec\<lparr>e_is_crossing := b\<rparr>)) }"

definition set_interface_face :: "mesh \<Rightarrow> key \<Rightarrow> bool \<Rightarrow> mesh option" where
  "set_interface_face m k b =
     do { fc \<leftarrow> find_face m k;
          Some (put_face m k (fc\<lparr>f_is_interface := b\<rparr>)) }"

definition set_boundary_face :: "mesh \<Rightarrow> key \<Rightarrow> bool \<Rightarrow> mesh option" where
  "set_boundary_face m k b =
     do { fc \<leftarrow> find_face m k;
          Some (put_face m k (fc\<lparr>f_is_boundary := b\<rparr>)) }"

section \<open>Lookups built on the navigator\<close>

definition get_nodes_edge :: "mesh \<Rightarrow> key \<Rightarrow> key list option" where
  "get_nodes_edge m eid = map_option e_get_boundary (find_edge m eid)"

definition get_edge :: "mesh \<Rightarrow> key \<Rightarrow> key \<Rightarrow> key option" where
  "get_edge m n1 n2 =
     do { st1 \<leftarrow> star_node m n1;
          st2 \<leftarrow> star_node m n2;
          let st = ss_intersection st1 st2;
          if size_edges st \<noteq> 1 then Some Undefined else Some (hd (ss_edges st)) }"

definition get_face :: "mesh \<Rightarrow> key \<Rightarrow> key \<Rightarrow> key \<Rightarrow> key option" where
  "get_face m n1 n2 n3 =
     do { st1 \<leftarrow> star_node m n1;
          st2 \<leftarrow> star_node m n2;
          st3 \<leftarrow> star_node m n3;
          let st = ss_intersection (ss_intersection st1 st2) st3;
          if size_faces st \<noteq> 1 then Some Undefined else Some (hd (ss_faces st)) }"

fun get_tet_loop :: "key \<Rightarrow> key list \<Rightarrow> key" where
  "get_tet_loop t [] = Undefined"
| "get_tet_loop t (tit # rest) = (if tit \<noteq> t then tit else get_tet_loop t rest)"

definition get_tet :: "mesh \<Rightarrow> key \<Rightarrow> key \<Rightarrow> key option" where
  "get_tet m t f =
     do { st_f \<leftarrow> star_face m f;
          Some (get_tet_loop t (ss_tetrahedra st_f)) }"

section \<open>Flag propagation\<close>

definition update_flag_face :: "mesh \<Rightarrow> key \<Rightarrow> mesh option" where
  "update_flag_face m f =
     do { m1 \<leftarrow> set_interface_face m f False;
          m2 \<leftarrow> set_boundary_face m1 f False;
          st_f \<leftarrow> star_face m2 f;
          if size_tetrahedra st_f = 1 then
            do { m3 \<leftarrow> set_boundary_face m2 f True;
                 l \<leftarrow> get_label m3 (hd (ss_tetrahedra st_f));
                 if l \<noteq> 0 then set_interface_face m3 f True else Some m3 }
          else if size_tetrahedra st_f = 2 then
            do { label0 \<leftarrow> get_label m2 (ss_tetrahedra st_f ! 0);
                 label1 \<leftarrow> get_label m2 (ss_tetrahedra st_f ! 1);
                 if label0 \<noteq> label1 then set_interface_face m2 f True else Some m2 }
          else Some m2 }"

fun update_flag_edge_loop :: "mesh \<Rightarrow> key \<Rightarrow> key list \<Rightarrow> int \<Rightarrow> (mesh \<times> int) option" where
  "update_flag_edge_loop m e [] i = Some (m, i)"
| "update_flag_edge_loop m e (fit # rest) i =
     (if exists_face m fit then
        do { b \<leftarrow> is_boundary_face m fit;
             m1 \<leftarrow> (if b then set_boundary_edge m e True else Some m);
             itf \<leftarrow> is_interface_face m1 fit;
             if itf then
               do { m2 \<leftarrow> set_interface_edge m1 e True;
                    update_flag_edge_loop m2 e rest (i + 1) }
             else update_flag_edge_loop m1 e rest i }
      else update_flag_edge_loop m e rest i)"

definition update_flag_edge :: "mesh \<Rightarrow> key \<Rightarrow> mesh option" where
  "update_flag_edge m e =
     do { m1 \<leftarrow> set_boundary_edge m e False;
          m2 \<leftarrow> set_interface_edge m1 e False;
          m3 \<leftarrow> set_crossing_edge m2 e False;
          st_e \<leftarrow> star_edge m3 e;
          (m4, i) \<leftarrow> update_flag_edge_loop m3 e (ss_faces st_e) 0;
          if i > 2 then set_crossing_edge m4 e True else Some m4 }"


text \<open>
  \<^verbatim>\<open>connected_component\<close> erases \<open>t\<close> from the star it was given and walks, through each
  face of \<open>t\<close>, to the tetrahedron on the other side while that one is still in the star
  and carries the same label. The star is passed by reference in the source; here it is
  returned.
\<close>

function connected_component :: "mesh \<Rightarrow> simplex_set \<Rightarrow> key \<Rightarrow> simplex_set option"
  and connected_component_loop ::
    "mesh \<Rightarrow> int \<Rightarrow> key \<Rightarrow> key list \<Rightarrow> simplex_set \<Rightarrow> simplex_set option"
where
  "connected_component m st_n t =
     do { label \<leftarrow> get_label m t;
          cl_t \<leftarrow> closure_tetrahedron m t;
          connected_component_loop m label t (ss_faces cl_t) (ss_erase_tetrahedron st_n t) }"
| "connected_component_loop m label t [] st_n = Some st_n"
| "connected_component_loop m label t (fit # rest) st_n =
     do { t2 \<leftarrow> get_tet m t fit;
          if ss_contains_tetrahedron st_n t2 then
            do { label2 \<leftarrow> get_label m t2;
                 if label = label2 then
                   do { st_n' \<leftarrow> connected_component m st_n t2;
                        connected_component_loop m label t rest st_n' }
                 else connected_component_loop m label t rest st_n }
          else connected_component_loop m label t rest st_n }"
  by pat_completeness auto

lemma size_erase_tetrahedron_le:
  "size_tetrahedra (ss_erase_tetrahedron st t) \<le> size_tetrahedra st"
  by (simp add: size_tetrahedra_def ss_erase_tetrahedron_def erase_key_def
      removeAll_filter_not_eq)

lemma size_erase_tetrahedron_less:
  "ss_contains_tetrahedron st t \<Longrightarrow>
     size_tetrahedra (ss_erase_tetrahedron st t) < size_tetrahedra st"
  by (simp add: size_tetrahedra_def ss_erase_tetrahedron_def erase_key_def
      ss_contains_tetrahedron_def contains_key_def length_removeAll_less)

lemma connected_component_dom_size:
  "connected_component_connected_component_loop_dom (Inl (m, st, t)) \<Longrightarrow>
     connected_component m st t = Some r \<Longrightarrow>
     size_tetrahedra r \<le> size_tetrahedra (ss_erase_tetrahedron st t)"
  "connected_component_connected_component_loop_dom (Inr (m, l, t', fs, st')) \<Longrightarrow>
     connected_component_loop m l t' fs st' = Some r' \<Longrightarrow>
     size_tetrahedra r' \<le> size_tetrahedra st'"
proof (induction m st t and m l t' fs st' arbitrary: r and r'
       rule: connected_component_connected_component_loop.pinduct)
  case (1 m st_n t)
  then show ?case
    by (auto simp: connected_component.psimps Option.bind_eq_Some_conv)
next
  case (2 m label t st_n)
  then show ?case by (simp add: connected_component_loop.psimps)
next
  case (3 m label t fit rest st_n)
  from "3.prems" "3.hyps" obtain t2 where t2: "get_tet m t fit = Some t2"
    by (auto simp: connected_component_loop.psimps Option.bind_eq_Some_conv)
  show ?case
  proof (cases "ss_contains_tetrahedron st_n t2")
    case False
    with 3 t2 show ?thesis
      by (auto simp: connected_component_loop.psimps)
  next
    case True
    from "3.prems" "3.hyps" t2 True obtain label2 where l2: "get_label m t2 = Some label2"
      by (auto simp: connected_component_loop.psimps Option.bind_eq_Some_conv)
    show ?thesis
    proof (cases "label = label2")
      case False
      with 3 t2 True l2 show ?thesis
        by (auto simp: connected_component_loop.psimps)
    next
      case eq: True
      from "3.prems" "3.hyps" t2 True l2 eq obtain st' where
        st': "connected_component m st_n t2 = Some st'"
        and r: "connected_component_loop m label t rest st' = Some r'"
        by (auto simp: connected_component_loop.psimps Option.bind_eq_Some_conv)
      from "3.IH"(1)[OF t2 True l2 eq st']
      have "size_tetrahedra st' \<le> size_tetrahedra (ss_erase_tetrahedron st_n t2)" .
      moreover note size_erase_tetrahedron_le[of st_n t2]
      moreover from "3.IH"(2)[OF t2 True l2 eq st' r]
      have "size_tetrahedra r' \<le> size_tetrahedra st'" .
      ultimately show ?thesis by simp
    qed
  qed
qed

termination connected_component
proof (relation "inv_image (less_than <*lex*> less_than <*lex*> less_than)
          (\<lambda>x. case x of
                 Inl (m, st, t) \<Rightarrow>
                   (size_tetrahedra (ss_erase_tetrahedron st t), 1::nat, 0::nat)
               | Inr (m, l, t, fs, st) \<Rightarrow> (size_tetrahedra st, 0, length fs))", goal_cases)
  case 1
  show ?case by (intro wf_inv_image wf_lex_prod wf_less_than)
next
  case (2 m st_n t label cl_t)
  then show ?case by simp
next
  case (3 m label t fit rest st_n t2 label2)
  then show ?case by (simp add: size_erase_tetrahedron_less)
next
  case (4 m label t fit rest st_n t2 label2 st')
  then have "size_tetrahedra st' \<le> size_tetrahedra (ss_erase_tetrahedron st_n t2)"
    by (blast intro: connected_component_dom_size(1))
  with size_erase_tetrahedron_le[of st_n t2] show ?case by auto
next
  case 5
  then show ?case by simp
next
  case 6
  then show ?case by simp
qed

declare connected_component.simps [simp del]

lemma connected_component_size:
  "connected_component m st t = Some r \<Longrightarrow>
     size_tetrahedra r \<le> size_tetrahedra (ss_erase_tetrahedron st t)"
  "connected_component_loop m l t' fs st' = Some r' \<Longrightarrow>
     size_tetrahedra r' \<le> size_tetrahedra st'"
proof (induction m st t and m l t' fs st' arbitrary: r and r'
       rule: connected_component_connected_component_loop.induct)
  case (1 m st_n t)
  then show ?case
    by (auto simp: connected_component.simps Option.bind_eq_Some_conv)
next
  case (2 m label t st_n)
  then show ?case by simp
next
  case (3 m label t fit rest st_n)
  from "3.prems" obtain t2 where t2: "get_tet m t fit = Some t2"
    by (auto simp: Option.bind_eq_Some_conv)
  show ?case
  proof (cases "ss_contains_tetrahedron st_n t2")
    case False
    with 3 t2 show ?thesis by auto
  next
    case True
    from "3.prems" t2 True obtain label2 where l2: "get_label m t2 = Some label2"
      by (auto simp: Option.bind_eq_Some_conv)
    show ?thesis
    proof (cases "label = label2")
      case False
      with 3 t2 True l2 show ?thesis by auto
    next
      case eq: True
      from "3.prems" t2 True l2 eq obtain st' where
        st': "connected_component m st_n t2 = Some st'"
        and r: "connected_component_loop m label t rest st' = Some r'"
        by (auto simp: Option.bind_eq_Some_conv)
      from "3.IH"(1)[OF t2 True l2 eq st']
      have "size_tetrahedra st' \<le> size_tetrahedra (ss_erase_tetrahedron st_n t2)" .
      moreover note size_erase_tetrahedron_le[of st_n t2]
      moreover from "3.IH"(2)[OF t2 True l2 eq st' r]
      have "size_tetrahedra r' \<le> size_tetrahedra st'" .
      ultimately show ?thesis by simp
    qed
  qed
qed

lemma connected_component_hd_less:
  assumes "0 < size_tetrahedra st"
    and "connected_component m st (hd (ss_tetrahedra st)) = Some r"
  shows "size_tetrahedra r < size_tetrahedra st"
proof -
  from assms(1) have "ss_contains_tetrahedron st (hd (ss_tetrahedra st))"
    by (simp add: size_tetrahedra_def ss_contains_tetrahedron_def contains_key_def)
  from size_erase_tetrahedron_less[OF this] connected_component_size(1)[OF assms(2)]
  show ?thesis by simp
qed

function crossing_loop :: "mesh \<Rightarrow> simplex_set \<Rightarrow> int \<Rightarrow> bool option" where
  "crossing_loop m st_n c =
     (if size_tetrahedra st_n > 0 then
        (if c = 2 then Some True
         else do { st_n' \<leftarrow> connected_component m st_n (hd (ss_tetrahedra st_n));
                   crossing_loop m st_n' (c + 1) })
      else Some False)"
  by pat_completeness auto
termination
  by (relation "measure (\<lambda>(m, st, c). size_tetrahedra st)")
     (auto simp: connected_component_hd_less)

declare crossing_loop.simps [simp del]

definition crossing :: "mesh \<Rightarrow> key \<Rightarrow> bool option" where
  "crossing m n = do { st_n \<leftarrow> star_node m n; crossing_loop m st_n 0 }"

fun update_flag_node_loop :: "mesh \<Rightarrow> key \<Rightarrow> key list \<Rightarrow> mesh option" where
  "update_flag_node_loop m n [] = Some m"
| "update_flag_node_loop m n (eit # rest) =
     (if exists_edge m eit then
        do { itf \<leftarrow> is_interface_edge m eit;
             m1 \<leftarrow> (if itf then set_interface_node m n True else Some m);
             b \<leftarrow> is_boundary_edge m1 eit;
             m2 \<leftarrow> (if b then set_boundary_node m1 n True else Some m1);
             c \<leftarrow> is_crossing_edge m2 eit;
             m3 \<leftarrow> (if c then set_crossing_node m2 n True else Some m2);
             update_flag_node_loop m3 n rest }
      else update_flag_node_loop m n rest)"

definition update_flag_node :: "mesh \<Rightarrow> key \<Rightarrow> mesh option" where
  "update_flag_node m n =
     do { m1 \<leftarrow> set_interface_node m n False;
          m2 \<leftarrow> set_boundary_node m1 n False;
          m3 \<leftarrow> set_crossing_node m2 n False;
          st_n \<leftarrow> star_node m3 n;
          m4 \<leftarrow> update_flag_node_loop m3 n (ss_edges st_n);
          c \<leftarrow> is_crossing_node m4 n;
          if \<not> c then
            do { itf \<leftarrow> is_interface_node m4 n;
                 if itf then
                   do { x \<leftarrow> crossing m4 n;
                        if x then set_crossing_node m4 n True else Some m4 }
                 else Some m4 }
          else Some m4 }"

fun update_faces :: "mesh \<Rightarrow> key list \<Rightarrow> mesh option" where
  "update_faces m [] = Some m"
| "update_faces m (fit # rest) =
     (if exists_face m fit then do { m' \<leftarrow> update_flag_face m fit; update_faces m' rest }
      else update_faces m rest)"

fun update_edges :: "mesh \<Rightarrow> key list \<Rightarrow> mesh option" where
  "update_edges m [] = Some m"
| "update_edges m (eit # rest) =
     (if exists_edge m eit then do { m' \<leftarrow> update_flag_edge m eit; update_edges m' rest }
      else update_edges m rest)"

fun update_nodes :: "mesh \<Rightarrow> key list \<Rightarrow> mesh option" where
  "update_nodes m [] = Some m"
| "update_nodes m (nit # rest) =
     (if exists_node m nit then do { m' \<leftarrow> update_flag_node m nit; update_nodes m' rest }
      else update_nodes m rest)"

definition update :: "mesh \<Rightarrow> simplex_set \<Rightarrow> mesh option" where
  "update m s =
     do { m1 \<leftarrow> update_faces m (ss_faces s);
          m2 \<leftarrow> update_edges m1 (ss_edges s);
          update_nodes m2 (ss_nodes s) }"

definition set_label :: "mesh \<Rightarrow> key \<Rightarrow> int \<Rightarrow> mesh option" where
  "set_label m t label =
     do { tc \<leftarrow> find_tetrahedron m t;
          let m1 = put_tetrahedron m t (tc\<lparr>t_label := label\<rparr>);
          cl_t \<leftarrow> closure_tetrahedron m1 t;
          update m1 cl_t }"


section \<open>Euler operators\<close>

text \<open>
  An \<^verbatim>\<open>assert\<close> that fails ends the run. The asserts between \<^verbatim>\<open>#ifdef DEBUG\<close> and
  \<^verbatim>\<open>#endif\<close> are compiled in a DEBUG build only; \<open>DEBUG\<close> is a parameter of the operators
  that have them.
\<close>

definition assertion :: "bool \<Rightarrow> unit option" where
  "assertion b = (if b then Some () else None)"

definition debug_assertion :: "bool \<Rightarrow> bool \<Rightarrow> unit option" where
  "debug_assertion DEBUG b = (if DEBUG then assertion b else Some ())"

text \<open>
  The operators call helpers of the kernel that are not among the sources:
  \<^verbatim>\<open>split_edge_helper\<close>, which returns the new node and fills a map from each new
  tetrahedron to the one it was split from (here a list of pairs in the order in which the
  map is traversed), and \<^verbatim>\<open>edge_collapse_helper\<close>. They are parameters.

  Modelled from the spec: \<^verbatim>\<open>edge_collapse_helper\<close> of the missing kernel. The spec fixes
  what a refused collapse does, it returns the invalid key and leaves the mesh unchanged,
  and says no more about the test that refuses nor about the merge; these two are the
  parameters \<open>collapse_refuses\<close> and \<open>collapse_merge\<close>.
\<close>

record kernel_helpers =
  split_edge_helper :: "mesh \<Rightarrow> key \<Rightarrow> (key \<times> (key \<times> key) list \<times> mesh) option"
  collapse_refuses :: "mesh \<Rightarrow> key \<Rightarrow> key \<Rightarrow> key \<Rightarrow> bool"
  collapse_merge :: "mesh \<Rightarrow> key \<Rightarrow> key \<Rightarrow> key \<Rightarrow> (key \<times> mesh) option"

definition edge_collapse_helper ::
  "kernel_helpers \<Rightarrow> mesh \<Rightarrow> key \<Rightarrow> key \<Rightarrow> key \<Rightarrow> (key \<times> mesh) option" where
  "edge_collapse_helper K m e n1 n2 =
     (if collapse_refuses K m e n1 n2 then Some (Undefined, m) else collapse_merge K m e n1 n2)"

text \<open>\<^verbatim>\<open>v[i]\<close> on a vector: reading past the end is undefined behaviour.\<close>

definition element_at :: "'a list \<Rightarrow> nat \<Rightarrow> 'a option" where
  "element_at xs i = (if i < length xs then Some (xs ! i) else None)"

text \<open>\<^verbatim>\<open>tt[*tit] = get_label(*tit)\<close> for the tetrahedra of a star.\<close>

fun star_labels :: "mesh \<Rightarrow> key list \<Rightarrow> (key \<times> int) list \<Rightarrow> (key \<times> int) list option" where
  "star_labels m [] tt = Some tt"
| "star_labels m (tit # rest) tt =
     do { l \<leftarrow> get_label m tit; star_labels m rest ((tit, l) # tt) }"

text \<open>
  \<^verbatim>\<open>set_label(it->first, tt[it->second])\<close> for the entries of \<^verbatim>\<open>new_tets\<close>; \<^verbatim>\<open>tt[k]\<close> of
  a \<^verbatim>\<open>std::map\<close> yields 0 for a key that is not in it.
\<close>

fun set_new_labels :: "mesh \<Rightarrow> (key \<times> key) list \<Rightarrow> (key \<times> int) list \<Rightarrow> mesh option" where
  "set_new_labels m [] tt = Some m"
| "set_new_labels m (it # rest) tt =
     do { m' \<leftarrow> set_label m (fst it) (case map_of tt (snd it) of Some l \<Rightarrow> l | None \<Rightarrow> 0);
          set_new_labels m' rest tt }"

definition split_edge :: "kernel_helpers \<Rightarrow> mesh \<Rightarrow> key \<Rightarrow> (key \<times> mesh) option" where
  "split_edge K m e =
     do { st_e \<leftarrow> star_edge m e;
          tt \<leftarrow> star_labels m (ss_tetrahedra st_e) [];
          (n, new_tets, m1) \<leftarrow> split_edge_helper K m e;
          m2 \<leftarrow> set_new_labels m1 new_tets tt;
          st_n \<leftarrow> star_node m2 n;
          m3 \<leftarrow> update m2 (ss_insert_node st_n n);
          Some (n, m3) }"

definition collapse :: "bool \<Rightarrow> kernel_helpers \<Rightarrow> mesh \<Rightarrow> key \<Rightarrow> (key \<times> mesh) option" where
  "collapse DEBUG K m e =
     do { nodes \<leftarrow> get_nodes_edge m e;
          n0 \<leftarrow> element_at nodes 0;
          n1 \<leftarrow> element_at nodes 1;
          _ \<leftarrow> debug_assertion DEBUG (is_valid n0);
          _ \<leftarrow> debug_assertion DEBUG (is_valid n1);
          (n, m1) \<leftarrow> edge_collapse_helper K m e n0 n1;
          if \<not> is_valid n then Some (n, m1)
          else
            do { st_n \<leftarrow> star_node m1 n;
                 cl_st_n \<leftarrow> closure_set m1 st_n;
                 m2 \<leftarrow> update m1 cl_st_n;
                 Some (n, m2) } }"

definition flip_32 :: "bool \<Rightarrow> kernel_helpers \<Rightarrow> mesh \<Rightarrow> key \<Rightarrow> (key \<times> mesh) option" where
  "flip_32 DEBUG K m e =
     do { itf \<leftarrow> (if DEBUG then is_interface_edge m e else Some False);
          b \<leftarrow> (if DEBUG then is_boundary_edge m e else Some False);
          _ \<leftarrow> debug_assertion DEBUG (\<not> itf \<and> \<not> b);
          lk_e \<leftarrow> link_edge m e;
          _ \<leftarrow> debug_assertion DEBUG (size_nodes lk_e = 3);
          n1 \<leftarrow> element_at (ss_nodes lk_e) 0;
          (n2, m1) \<leftarrow> split_edge K m e;
          e2 \<leftarrow> get_edge m1 n1 n2;
          _ \<leftarrow> debug_assertion DEBUG (is_valid e2);
          (n3, m2) \<leftarrow> collapse DEBUG K m1 e2;
          _ \<leftarrow> debug_assertion DEBUG (is_valid n3);
          _ \<leftarrow> debug_assertion DEBUG (n1 = n3);
          Some (n3, m2) }"

section \<open>Incidence structure and example meshes\<close>

text \<open>
  What a flag update must not touch: positions, the boundary and co-boundary lists and the
  tetrahedra with their labels. Two meshes have the same incidence structure when they
  differ in flags only.
\<close>

definition node_topology :: "node_type \<Rightarrow> vec3 \<times> key list" where
  "node_topology nc = (n_get_pos nc, n_get_co_boundary nc)"

definition edge_topology :: "edge_type \<Rightarrow> key list \<times> key list" where
  "edge_topology ec = (e_get_boundary ec, e_get_co_boundary ec)"

definition face_topology :: "face_type \<Rightarrow> key list \<times> key list" where
  "face_topology fc = (f_get_boundary fc, f_get_co_boundary fc)"

definition same_incidence :: "mesh \<Rightarrow> mesh \<Rightarrow> bool" where
  "same_incidence m m' =
     (map (map_option node_topology) (m_node_kernel m')
        = map (map_option node_topology) (m_node_kernel m) \<and>
      map (map_option edge_topology) (m_edge_kernel m')
        = map (map_option edge_topology) (m_edge_kernel m) \<and>
      map (map_option face_topology) (m_face_kernel m')
        = map (map_option face_topology) (m_face_kernel m) \<and>
      m_tetrahedron_kernel m' = m_tetrahedron_kernel m)"

text \<open>
  The label-connected components of the spec, section 3, stated on the incidence lists
  alone and not through the traversal of \<^verbatim>\<open>crossing\<close>. Two tetrahedra are adjacent
  when they are different, carry the same label and have a face in common; the component
  of a tetrahedron \<open>t\<close> in a set \<open>S\<close> of tetrahedra is what is reached from \<open>t\<close> by steps
  between adjacent tetrahedra of \<open>S\<close>; \<open>S\<close> decomposes into the set of the components of
  its members.
\<close>

definition label_adjacent :: "mesh \<Rightarrow> key \<Rightarrow> key \<Rightarrow> bool" where
  "label_adjacent m t1 t2 =
     (case (find_tetrahedron m t1, find_tetrahedron m t2) of
        (Some tc1, Some tc2) \<Rightarrow>
          t1 \<noteq> t2 \<and> t_label tc1 = t_label tc2 \<and>
          (\<exists>f\<in>set (t_get_boundary tc1). f \<in> set (t_get_boundary tc2))
      | _ \<Rightarrow> False)"

definition label_adjacency :: "mesh \<Rightarrow> key set \<Rightarrow> (key \<times> key) set" where
  "label_adjacency m S = {(t1, t2). t1 \<in> S \<and> t2 \<in> S \<and> label_adjacent m t1 t2}"

definition label_component :: "mesh \<Rightarrow> key set \<Rightarrow> key \<Rightarrow> key set" where
  "label_component m S t = {u. (t, u) \<in> (label_adjacency m S)\<^sup>*}"

definition label_connected_components :: "mesh \<Rightarrow> key set \<Rightarrow> key set set" where
  "label_connected_components m S = label_component m S ` S"

text \<open>
  Invariants 1 and 4 of the spec, section 3, around one tetrahedron: each of its faces
  exists, lists the tetrahedron among at most two co-tetrahedra, and every
  co-tetrahedron that a face lists exists and has the face in its boundary.
\<close>

definition face_consistent :: "mesh \<Rightarrow> key \<Rightarrow> key \<Rightarrow> bool" where
  "face_consistent m t f =
     (case find_face m f of
        None \<Rightarrow> False
      | Some fc \<Rightarrow>
          t \<in> set (f_get_co_boundary fc) \<and> card (set (f_get_co_boundary fc)) \<le> 2 \<and>
          (\<forall>t'\<in>set (f_get_co_boundary fc).
              case find_tetrahedron m t' of
                None \<Rightarrow> False
              | Some tc' \<Rightarrow> f \<in> set (t_get_boundary tc')))"

definition tetrahedron_consistent :: "mesh \<Rightarrow> key \<Rightarrow> bool" where
  "tetrahedron_consistent m t =
     (case find_tetrahedron m t of
        None \<Rightarrow> False
      | Some tc \<Rightarrow> \<forall>f\<in>set (t_get_boundary tc). face_consistent m t f)"

definition mk_node :: "vec3 \<Rightarrow> nat list \<Rightarrow> node_type option" where
  "mk_node p co = Some \<lparr>n_get_pos = p, n_get_co_boundary = map Key co,
     n_is_interface = False, n_is_boundary = False, n_is_crossing = False\<rparr>"

definition mk_edge :: "nat list \<Rightarrow> nat list \<Rightarrow> edge_type option" where
  "mk_edge bd co = Some \<lparr>e_get_boundary = map Key bd, e_get_co_boundary = map Key co,
     e_is_interface = False, e_is_boundary = False, e_is_crossing = False\<rparr>"

definition mk_face :: "nat list \<Rightarrow> nat list \<Rightarrow> face_type option" where
  "mk_face bd co = Some \<lparr>f_get_boundary = map Key bd, f_get_co_boundary = map Key co,
     f_is_interface = False, f_is_boundary = False\<rparr>"

definition mk_tet :: "nat list \<Rightarrow> int \<Rightarrow> tetrahedron_type option" where
  "mk_tet bd l = Some \<lparr>t_get_boundary = map Key bd, t_label = l\<rparr>"

text \<open>
  Two tetrahedra, labelled 1 and 2, on the nodes 0 1 2 3 and 1 2 3 4; they share face 3
  (nodes 1 2 3). All flags are still unset.
\<close>

definition two_tets :: mesh where
  "two_tets = \<lparr>
     m_node_kernel =
       [mk_node (0, 0, 0) [0, 1, 2], mk_node (1, 0, 0) [0, 3, 4, 6],
        mk_node (0, 1, 0) [1, 3, 5, 7], mk_node (0, 0, 1) [2, 4, 5, 8],
        mk_node (1, 1, 1) [6, 7, 8]],
     m_edge_kernel =
       [mk_edge [0, 1] [0, 1], mk_edge [0, 2] [0, 2], mk_edge [0, 3] [1, 2],
        mk_edge [1, 2] [0, 3, 4], mk_edge [1, 3] [1, 3, 5], mk_edge [2, 3] [2, 3, 6],
        mk_edge [1, 4] [4, 5], mk_edge [2, 4] [4, 6], mk_edge [3, 4] [5, 6]],
     m_face_kernel =
       [mk_face [0, 3, 1] [0], mk_face [0, 4, 2] [0], mk_face [1, 5, 2] [0],
        mk_face [3, 5, 4] [0, 1], mk_face [3, 7, 6] [1], mk_face [4, 8, 6] [1],
        mk_face [5, 8, 7] [1]],
     m_tetrahedron_kernel = [mk_tet [0, 1, 2, 3] 1, mk_tet [3, 4, 5, 6] 2]\<rparr>"

text \<open>
  Four tetrahedra with label 1 around node 0. The tetrahedra 0 and 3 share face 0 (nodes
  0 1 2); the tetrahedra 1 and 2 meet the others in node 0 only. The star of node 0 has
  three label-connected components.
\<close>

definition four_tets :: mesh where
  "four_tets = \<lparr>
     m_node_kernel =
       [mk_node (0, 0, 0) [0, 1, 2, 6, 7, 8, 12, 13, 14, 18], mk_node (1, 0, 0) [0, 3, 4, 19],
        mk_node (0, 1, 0) [1, 3, 5, 20], mk_node (0, 0, 1) [2, 4, 5],
        mk_node (- 1, 0, 0) [6, 9, 10], mk_node (0, - 1, 0) [7, 9, 11],
        mk_node (- 1, - 1, 1) [8, 10, 11], mk_node (2, 2, - 1) [12, 15, 16],
        mk_node (1, 2, - 2) [13, 15, 17], mk_node (2, 1, - 2) [14, 16, 17],
        mk_node (0, 0, - 1) [18, 19, 20]],
     m_edge_kernel =
       [mk_edge [0, 1] [0, 1, 12], mk_edge [0, 2] [0, 2, 13], mk_edge [0, 3] [1, 2],
        mk_edge [1, 2] [0, 3, 14], mk_edge [1, 3] [1, 3], mk_edge [2, 3] [2, 3],
        mk_edge [0, 4] [4, 5], mk_edge [0, 5] [4, 6], mk_edge [0, 6] [5, 6],
        mk_edge [4, 5] [4, 7], mk_edge [4, 6] [5, 7], mk_edge [5, 6] [6, 7],
        mk_edge [0, 7] [8, 9], mk_edge [0, 8] [8, 10], mk_edge [0, 9] [9, 10],
        mk_edge [7, 8] [8, 11], mk_edge [7, 9] [9, 11], mk_edge [8, 9] [10, 11],
        mk_edge [0, 10] [12, 13], mk_edge [1, 10] [12, 14], mk_edge [2, 10] [13, 14]],
     m_face_kernel =
       [mk_face [0, 3, 1] [0, 3], mk_face [0, 4, 2] [0], mk_face [1, 5, 2] [0],
        mk_face [3, 5, 4] [0], mk_face [6, 9, 7] [1], mk_face [6, 10, 8] [1],
        mk_face [7, 11, 8] [1], mk_face [9, 11, 10] [1], mk_face [12, 15, 13] [2],
        mk_face [12, 16, 14] [2], mk_face [13, 17, 14] [2], mk_face [15, 17, 16] [2],
        mk_face [0, 19, 18] [3], mk_face [1, 20, 18] [3], mk_face [3, 20, 19] [3]],
     m_tetrahedron_kernel =
       [mk_tet [0, 1, 2, 3] 1, mk_tet [4, 5, 6, 7] 1, mk_tet [8, 9, 10, 11] 1,
        mk_tet [0, 12, 13, 14] 1]\<rparr>"

text \<open>
  Three tetrahedra with label 1 around the edge 0 (nodes 0 and 1); the link of the edge
  has the nodes 2, 3 and 4.
\<close>

definition three_around_edge :: mesh where
  "three_around_edge = \<lparr>
     m_node_kernel =
       [mk_node (0, 0, 1) [0, 1, 2, 3], mk_node (0, 0, - 1) [0, 4, 5, 6],
        mk_node (1, 0, 0) [1, 4, 7, 9], mk_node (0, 1, 0) [2, 5, 7, 8],
        mk_node (- 1, - 1, 0) [3, 6, 8, 9]],
     m_edge_kernel =
       [mk_edge [0, 1] [0, 1, 2], mk_edge [0, 2] [0, 3, 5], mk_edge [0, 3] [1, 3, 4],
        mk_edge [0, 4] [2, 4, 5], mk_edge [1, 2] [0, 6, 8], mk_edge [1, 3] [1, 6, 7],
        mk_edge [1, 4] [2, 7, 8], mk_edge [2, 3] [3, 6], mk_edge [3, 4] [4, 7],
        mk_edge [4, 2] [5, 8]],
     m_face_kernel =
       [mk_face [0, 4, 1] [0, 2], mk_face [0, 5, 2] [0, 1], mk_face [0, 6, 3] [1, 2],
        mk_face [1, 7, 2] [0], mk_face [2, 8, 3] [1], mk_face [3, 9, 1] [2],
        mk_face [4, 7, 5] [0], mk_face [5, 8, 6] [1], mk_face [6, 9, 4] [2]],
     m_tetrahedron_kernel =
       [mk_tet [0, 1, 3, 6] 1, mk_tet [1, 2, 4, 7] 1, mk_tet [2, 0, 5, 8] 1]\<rparr>"

text \<open>A stand-in for the helpers of the kernel that refuses every collapse.\<close>

definition refusing_kernel :: kernel_helpers where
  "refusing_kernel =
     \<lparr>split_edge_helper = (\<lambda>m e. None),
      collapse_refuses = (\<lambda>m e n1 n2. True),
      collapse_merge = (\<lambda>m e n1 n2. None)\<rparr>"

definition all_simplices :: "mesh \<Rightarrow> simplex_set" where
  "all_simplices m =
     \<lparr>ss_nodes = map Key [0 ..< length (m_node_kernel m)],
      ss_edges = map Key [0 ..< length (m_edge_kernel m)],
      ss_faces = map Key [0 ..< length (m_face_kernel m)],
      ss_tetrahedra = map Key [0 ..< length (m_tetrahedron_kernel m)]\<rparr>"


section \<open>Flag rules in closed form\<close>

text \<open>
  The rules of the spec, section 3, as functions of the mesh that is read: the flags of a
  face from the labels of the tetrahedra of its star, the flags of an edge from one scan of
  the faces of its star, the flags of a node from one scan of the edges of its star.
\<close>

definition face_flags :: "mesh \<Rightarrow> simplex_set \<Rightarrow> (bool \<times> bool) option" where
  "face_flags m st_f =
     (if size_tetrahedra st_f = 1 then
        map_option (\<lambda>l. (True, l \<noteq> 0)) (get_label m (hd (ss_tetrahedra st_f)))
      else if size_tetrahedra st_f = 2 then
        do { label0 \<leftarrow> get_label m (ss_tetrahedra st_f ! 0);
             label1 \<leftarrow> get_label m (ss_tetrahedra st_f ! 1);
             Some (False, label0 \<noteq> label1) }
      else Some (False, False))"

fun edge_scan :: "mesh \<Rightarrow> key list \<Rightarrow> bool \<times> bool \<times> int \<Rightarrow> (bool \<times> bool \<times> int) option" where
  "edge_scan m [] acc = Some acc"
| "edge_scan m (f # fs) (b, itf, i) =
     (if exists_face m f then
        do { fb \<leftarrow> is_boundary_face m f;
             fi \<leftarrow> is_interface_face m f;
             edge_scan m fs (b \<or> fb, itf \<or> fi, if fi then i + 1 else i) }
      else edge_scan m fs (b, itf, i))"

fun node_scan :: "mesh \<Rightarrow> key list \<Rightarrow> bool \<times> bool \<times> bool \<Rightarrow> (bool \<times> bool \<times> bool) option" where
  "node_scan m [] acc = Some acc"
| "node_scan m (e # es) (itf, b, c) =
     (if exists_edge m e then
        do { ei \<leftarrow> is_interface_edge m e;
             eb \<leftarrow> is_boundary_edge m e;
             ec \<leftarrow> is_crossing_edge m e;
             node_scan m es (itf \<or> ei, b \<or> eb, c \<or> ec) }
      else node_scan m es (itf, b, c))"

section \<open>Properties\<close>

subsection \<open>Pools\<close>

lemma lookup_map: "lookup (map (map_option g) p) k = map_option g (lookup p k)"
  by (cases k) (auto simp: lookup_def)

lemma lookup_replace:
  "lookup p k = Some v0 \<Longrightarrow> lookup (replace p k v) k' = (if k' = k then Some v else lookup p k')"
  by (cases k; cases k') (auto simp: lookup_def replace_def split: if_splits)

lemma replace_same: "lookup p k = Some v \<Longrightarrow> replace p k v = p"
  by (cases k) (auto simp: lookup_def replace_def list_update_same_conv split: if_splits)

lemma length_replace [simp]: "length (replace p k v) = length p"
  by (cases k) (auto simp: replace_def)

lemma map_replace_topology:
  "lookup p k = Some v0 \<Longrightarrow> g v = g v0 \<Longrightarrow>
     map (map_option g) (replace p k v) = map (map_option g) p"
  by (cases k) (auto simp: lookup_def replace_def map_update list_update_same_conv split: if_splits)

lemma pool_fields_put [simp]:
  "m_node_kernel (put_edge m k ev) = m_node_kernel m"
  "m_node_kernel (put_face m k fv) = m_node_kernel m"
  "m_node_kernel (put_tetrahedron m k tv) = m_node_kernel m"
  "m_edge_kernel (put_node m k nv) = m_edge_kernel m"
  "m_edge_kernel (put_face m k fv) = m_edge_kernel m"
  "m_edge_kernel (put_tetrahedron m k tv) = m_edge_kernel m"
  "m_face_kernel (put_node m k nv) = m_face_kernel m"
  "m_face_kernel (put_edge m k ev) = m_face_kernel m"
  "m_face_kernel (put_tetrahedron m k tv) = m_face_kernel m"
  "m_tetrahedron_kernel (put_node m k nv) = m_tetrahedron_kernel m"
  "m_tetrahedron_kernel (put_edge m k ev) = m_tetrahedron_kernel m"
  "m_tetrahedron_kernel (put_face m k fv) = m_tetrahedron_kernel m"
  by (simp_all add: put_node_def put_edge_def put_face_def put_tetrahedron_def)

lemma find_put_node:
  "find_node m k = Some v0 \<Longrightarrow> find_node (put_node m k v) k' = (if k' = k then Some v else find_node m k')"
  by (simp add: find_node_def put_node_def lookup_replace)

lemma find_put_edge:
  "find_edge m k = Some v0 \<Longrightarrow> find_edge (put_edge m k v) k' = (if k' = k then Some v else find_edge m k')"
  by (simp add: find_edge_def put_edge_def lookup_replace)

lemma find_put_face:
  "find_face m k = Some v0 \<Longrightarrow> find_face (put_face m k v) k' = (if k' = k then Some v else find_face m k')"
  by (simp add: find_face_def put_face_def lookup_replace)

lemma find_put_tetrahedron:
  "find_tetrahedron m k = Some v0 \<Longrightarrow>
     find_tetrahedron (put_tetrahedron m k v) k' = (if k' = k then Some v else find_tetrahedron m k')"
  by (simp add: find_tetrahedron_def put_tetrahedron_def lookup_replace)

lemma put_node_same: "find_node m k = Some v \<Longrightarrow> put_node m k v = m"
  by (simp add: find_node_def put_node_def replace_same)

lemma put_edge_same: "find_edge m k = Some v \<Longrightarrow> put_edge m k v = m"
  by (simp add: find_edge_def put_edge_def replace_same)

lemma put_face_same: "find_face m k = Some v \<Longrightarrow> put_face m k v = m"
  by (simp add: find_face_def put_face_def replace_same)

lemma find_other_put [simp]:
  "find_node (put_edge m k ev) = find_node m"
  "find_node (put_face m k fv) = find_node m"
  "find_node (put_tetrahedron m k tv) = find_node m"
  "find_edge (put_node m k nv) = find_edge m"
  "find_edge (put_face m k fv) = find_edge m"
  "find_edge (put_tetrahedron m k tv) = find_edge m"
  "find_face (put_node m k nv) = find_face m"
  "find_face (put_edge m k ev) = find_face m"
  "find_face (put_tetrahedron m k tv) = find_face m"
  "find_tetrahedron (put_node m k nv) = find_tetrahedron m"
  "find_tetrahedron (put_edge m k ev) = find_tetrahedron m"
  "find_tetrahedron (put_face m k fv) = find_tetrahedron m"
  by (simp_all add: fun_eq_iff find_node_def find_edge_def find_face_def find_tetrahedron_def)

subsection \<open>Meshes with the same incidence structure\<close>

lemma same_incidence_refl [simp]: "same_incidence m m"
  by (simp add: same_incidence_def)

lemma same_incidence_sym: "same_incidence m m' \<Longrightarrow> same_incidence m' m"
  by (simp add: same_incidence_def)

lemma same_incidence_trans:
  "same_incidence m m' \<Longrightarrow> same_incidence m' m'' \<Longrightarrow> same_incidence m m''"
  by (simp add: same_incidence_def)

lemma same_incidence_put_node:
  "find_node m k = Some v0 \<Longrightarrow> node_topology v = node_topology v0 \<Longrightarrow>
     same_incidence m (put_node m k v)"
  by (simp add: same_incidence_def put_node_def find_node_def map_replace_topology)

lemma same_incidence_put_edge:
  "find_edge m k = Some v0 \<Longrightarrow> edge_topology v = edge_topology v0 \<Longrightarrow>
     same_incidence m (put_edge m k v)"
  by (simp add: same_incidence_def put_edge_def find_edge_def map_replace_topology)

lemma same_incidence_put_face:
  "find_face m k = Some v0 \<Longrightarrow> face_topology v = face_topology v0 \<Longrightarrow>
     same_incidence m (put_face m k v)"
  by (simp add: same_incidence_def put_face_def find_face_def map_replace_topology)

lemma same_incidence_find_node:
  "same_incidence m m' \<Longrightarrow>
     map_option node_topology (find_node m' k) = map_option node_topology (find_node m k)"
  by (simp add: same_incidence_def find_node_def lookup_map[symmetric])

lemma same_incidence_find_edge:
  "same_incidence m m' \<Longrightarrow>
     map_option edge_topology (find_edge m' k) = map_option edge_topology (find_edge m k)"
  by (simp add: same_incidence_def find_edge_def lookup_map[symmetric])

lemma same_incidence_find_face:
  "same_incidence m m' \<Longrightarrow>
     map_option face_topology (find_face m' k) = map_option face_topology (find_face m k)"
  by (simp add: same_incidence_def find_face_def lookup_map[symmetric])

lemma same_incidence_find_tetrahedron:
  "same_incidence m m' \<Longrightarrow> find_tetrahedron m' k = find_tetrahedron m k"
  by (simp add: same_incidence_def find_tetrahedron_def)

lemma same_incidence_get_label:
  "same_incidence m m' \<Longrightarrow> get_label m' t = get_label m t"
  by (simp add: get_label_def same_incidence_find_tetrahedron)

lemma same_incidence_exists:
  assumes "same_incidence m m'"
  shows "exists_node m' k = exists_node m k"
    and "exists_edge m' k = exists_edge m k"
    and "exists_face m' k = exists_face m k"
    and "exists_tetrahedron m' k = exists_tetrahedron m k"
proof -
  from same_incidence_find_node[OF assms, of k] show "exists_node m' k = exists_node m k"
    by (cases "find_node m k"; cases "find_node m' k") (auto simp: exists_node_def)
  from same_incidence_find_edge[OF assms, of k] show "exists_edge m' k = exists_edge m k"
    by (cases "find_edge m k"; cases "find_edge m' k") (auto simp: exists_edge_def)
  from same_incidence_find_face[OF assms, of k] show "exists_face m' k = exists_face m k"
    by (cases "find_face m k"; cases "find_face m' k") (auto simp: exists_face_def)
  from assms show "exists_tetrahedron m' k = exists_tetrahedron m k"
    by (simp add: exists_tetrahedron_def same_incidence_find_tetrahedron)
qed

lemma same_incidence_co_boundary_edges:
  assumes "same_incidence m m'"
  shows "co_boundary_edges m' ns acc = co_boundary_edges m ns acc"
proof (induction ns arbitrary: acc)
  case Nil
  show ?case by simp
next
  case (Cons n ns)
  from same_incidence_find_node[OF assms, of n] show ?case
    by (cases "find_node m n"; cases "find_node m' n") (auto simp: node_topology_def Cons.IH)
qed

lemma same_incidence_co_boundary_faces:
  assumes "same_incidence m m'"
  shows "co_boundary_faces m' es acc = co_boundary_faces m es acc"
proof (induction es arbitrary: acc)
  case Nil
  show ?case by simp
next
  case (Cons e es)
  from same_incidence_find_edge[OF assms, of e] show ?case
    by (cases "find_edge m e"; cases "find_edge m' e") (auto simp: edge_topology_def Cons.IH)
qed

lemma same_incidence_co_boundary_tetrahedra:
  assumes "same_incidence m m'"
  shows "co_boundary_tetrahedra m' fs acc = co_boundary_tetrahedra m fs acc"
proof (induction fs arbitrary: acc)
  case Nil
  show ?case by simp
next
  case (Cons f fs)
  from same_incidence_find_face[OF assms, of f] show ?case
    by (cases "find_face m f"; cases "find_face m' f") (auto simp: face_topology_def Cons.IH)
qed

lemma same_incidence_boundary_faces:
  assumes "same_incidence m m'"
  shows "boundary_faces m' ts acc = boundary_faces m ts acc"
  by (induction ts arbitrary: acc) (auto simp: same_incidence_find_tetrahedron[OF assms])

lemma same_incidence_boundary_edges:
  assumes "same_incidence m m'"
  shows "boundary_edges m' fs acc = boundary_edges m fs acc"
proof (induction fs arbitrary: acc)
  case Nil
  show ?case by simp
next
  case (Cons f fs)
  from same_incidence_find_face[OF assms, of f] show ?case
    by (cases "find_face m f"; cases "find_face m' f") (auto simp: face_topology_def Cons.IH)
qed

lemma same_incidence_boundary_nodes:
  assumes "same_incidence m m'"
  shows "boundary_nodes m' es acc = boundary_nodes m es acc"
proof (induction es arbitrary: acc)
  case Nil
  show ?case by simp
next
  case (Cons e es)
  from same_incidence_find_edge[OF assms, of e] show ?case
    by (cases "find_edge m e"; cases "find_edge m' e") (auto simp: edge_topology_def Cons.IH)
qed

lemma same_incidence_star_set:
  "same_incidence m m' \<Longrightarrow> star_set m' s = star_set m s"
  by (simp add: star_set_def same_incidence_co_boundary_edges same_incidence_co_boundary_faces
      same_incidence_co_boundary_tetrahedra)

lemma same_incidence_closure_set:
  "same_incidence m m' \<Longrightarrow> closure_set m' s = closure_set m s"
  by (simp add: closure_set_def same_incidence_boundary_faces same_incidence_boundary_edges
      same_incidence_boundary_nodes)

lemma same_incidence_star:
  assumes "same_incidence m m'"
  shows "star_node m' k = star_node m k"
    and "star_edge m' k = star_edge m k"
    and "star_face m' k = star_face m k"
  by (simp_all add: star_node_def star_edge_def star_face_def same_incidence_star_set[OF assms])

lemma same_incidence_closure_tetrahedron:
  "same_incidence m m' \<Longrightarrow> closure_tetrahedron m' k = closure_tetrahedron m k"
  by (simp add: closure_tetrahedron_def same_incidence_closure_set)

lemma same_incidence_get_tet:
  "same_incidence m m' \<Longrightarrow> get_tet m' t f = get_tet m t f"
  by (simp add: get_tet_def same_incidence_star)

lemma same_incidence_connected_component:
  "same_incidence m m' \<Longrightarrow> connected_component m' st t = connected_component m st t"
  "same_incidence m m' \<Longrightarrow>
     connected_component_loop m' l t' fs st' = connected_component_loop m l t' fs st'"
proof (induction m st t and m l t' fs st'
       rule: connected_component_connected_component_loop.induct)
  case (1 m st_n t)
  note si = "1.prems"
  show ?case
  proof (cases "get_label m t")
    case None
    then show ?thesis
      by (simp add: connected_component.simps same_incidence_get_label[OF si])
  next
    case (Some label)
    show ?thesis
    proof (cases "closure_tetrahedron m t")
      case None
      with Some show ?thesis
        by (simp add: connected_component.simps same_incidence_get_label[OF si]
            same_incidence_closure_tetrahedron[OF si])
    next
      case cl: (Some cl_t)
      from "1.IH"[OF Some cl si] Some cl show ?thesis
        by (simp add: connected_component.simps same_incidence_get_label[OF si]
            same_incidence_closure_tetrahedron[OF si])
    qed
  qed
next
  case (2 m label t st_n)
  then show ?case by simp
next
  case (3 m label t fit rest st_n)
  note si = "3.prems"
  show ?case
  proof (cases "get_tet m t fit")
    case None
    then show ?thesis by (simp add: same_incidence_get_tet[OF si])
  next
    case (Some t2)
    show ?thesis
    proof (cases "ss_contains_tetrahedron st_n t2")
      case False
      with Some "3.IH"(4)[OF Some False si] show ?thesis
        by (simp add: same_incidence_get_tet[OF si])
    next
      case True
      show ?thesis
      proof (cases "get_label m t2")
        case None
        with Some True show ?thesis
          by (simp add: same_incidence_get_tet[OF si] same_incidence_get_label[OF si])
      next
        case l2: (Some label2)
        show ?thesis
        proof (cases "label = label2")
          case False
          with Some True l2 "3.IH"(3)[OF Some True l2 False si] show ?thesis
            by (simp add: same_incidence_get_tet[OF si] same_incidence_get_label[OF si])
        next
          case eq: True
          note ih1 = "3.IH"(1)[OF Some True l2 eq si]
          show ?thesis
          proof (cases "connected_component m st_n t2")
            case None
            with Some True l2 eq ih1 show ?thesis
              by (simp add: same_incidence_get_tet[OF si] same_incidence_get_label[OF si])
          next
            case st: (Some st')
            from "3.IH"(2)[OF Some True l2 eq st si] Some True l2 eq ih1 st show ?thesis
              by (simp add: same_incidence_get_tet[OF si] same_incidence_get_label[OF si])
          qed
        qed
      qed
    qed
  qed
qed

lemma same_incidence_crossing_loop:
  "same_incidence m m' \<Longrightarrow> crossing_loop m' st c = crossing_loop m st c"
proof (induction m st c rule: crossing_loop.induct)
  case (1 m st_n c)
  note si = "1.prems"
  show ?case
  proof (cases "0 < size_tetrahedra st_n \<and> c \<noteq> 2")
    case False
    then show ?thesis
      by (auto simp: crossing_loop.simps[of m] crossing_loop.simps[of m'])
  next
    case True
    show ?thesis
    proof (cases "connected_component m st_n (hd (ss_tetrahedra st_n))")
      case None
      with True show ?thesis
        by (simp add: crossing_loop.simps[of m st_n] crossing_loop.simps[of m' st_n]
            same_incidence_connected_component(1)[OF si])
    next
      case (Some st')
      from True "1.IH"[OF _ _ Some si] Some show ?thesis
        by (simp add: crossing_loop.simps[of m st_n] crossing_loop.simps[of m' st_n]
            same_incidence_connected_component(1)[OF si])
    qed
  qed
qed

lemma same_incidence_crossing:
  "same_incidence m m' \<Longrightarrow> crossing m' n = crossing m n"
  by (simp add: crossing_def same_incidence_star same_incidence_crossing_loop
      cong: Option.bind_cong)

subsection \<open>Setters\<close>

lemma put_put [simp]:
  "put_node (put_node m k a) k b = put_node m k b"
  "put_edge (put_edge m k c) k d = put_edge m k d"
  "put_face (put_face m k e) k f = put_face m k f"
  by (cases k; simp add: put_node_def put_edge_def put_face_def replace_def)+

lemma face_flags_cong:
  "same_incidence m m' \<Longrightarrow> face_flags m' st = face_flags m st"
  by (simp add: face_flags_def same_incidence_get_label)

lemma update_flag_face_closed:
  "update_flag_face m f =
     do { fc \<leftarrow> find_face m f;
          st_f \<leftarrow> star_face m f;
          v \<leftarrow> face_flags m st_f;
          Some (put_face m f (fc\<lparr>f_is_interface := snd v, f_is_boundary := fst v\<rparr>)) }"
proof (cases "find_face m f")
  case None
  then show ?thesis by (simp add: update_flag_face_def set_interface_face_def)
next
  case (Some fc)
  have sw: "\<And>x y. fc\<lparr>f_is_boundary := x, f_is_interface := y\<rparr>
                  = fc\<lparr>f_is_interface := y, f_is_boundary := x\<rparr>"
    by (cases fc) simp
  define m1 where "m1 = put_face m f (fc\<lparr>f_is_interface := False\<rparr>)"
  define m2 where "m2 = put_face m f (fc\<lparr>f_is_interface := False, f_is_boundary := False\<rparr>)"
  define m3 where "m3 = put_face m f (fc\<lparr>f_is_interface := False, f_is_boundary := True\<rparr>)"
  have s1: "set_interface_face m f False = Some m1"
    by (simp add: set_interface_face_def Some m1_def)
  have f1: "find_face m1 f = Some (fc\<lparr>f_is_interface := False\<rparr>)"
    by (simp add: m1_def find_put_face[OF Some])
  have s2: "set_boundary_face m1 f False = Some m2"
    by (simp add: set_boundary_face_def f1) (simp add: m1_def m2_def)
  have f2: "find_face m2 f = Some (fc\<lparr>f_is_interface := False, f_is_boundary := False\<rparr>)"
    by (simp add: m2_def find_put_face[OF Some])
  have si2: "same_incidence m m2"
    unfolding m2_def by (rule same_incidence_put_face[OF Some]) (simp add: face_topology_def)
  have s3: "set_boundary_face m2 f True = Some m3"
    by (simp add: set_boundary_face_def f2) (simp add: m2_def m3_def)
  have f3: "find_face m3 f = Some (fc\<lparr>f_is_interface := False, f_is_boundary := True\<rparr>)"
    by (simp add: m3_def find_put_face[OF Some])
  have si3: "same_incidence m m3"
    unfolding m3_def by (rule same_incidence_put_face[OF Some]) (simp add: face_topology_def)
  have s4: "set_interface_face m3 f True
              = Some (put_face m f (fc\<lparr>f_is_interface := True, f_is_boundary := True\<rparr>))"
    by (simp add: set_interface_face_def f3) (simp add: m3_def sw)
  have s5: "set_interface_face m2 f True
              = Some (put_face m f (fc\<lparr>f_is_interface := True, f_is_boundary := False\<rparr>))"
    by (simp add: set_interface_face_def f2) (simp add: m2_def sw)
  show ?thesis
  proof (cases "star_face m f")
    case None
    then show ?thesis
      by (simp add: update_flag_face_def s1 s2 Some same_incidence_star(3)[OF si2])
  next
    case st: (Some st_f)
    show ?thesis
      by (cases "get_label m (hd (ss_tetrahedra st_f))";
          cases "get_label m (ss_tetrahedra st_f ! 0)";
          cases "get_label m (ss_tetrahedra st_f ! 1)")
         (simp_all add: update_flag_face_def s1 s2 s3 s4 s5 Some st
            same_incidence_star(3)[OF si2] face_flags_def
            same_incidence_get_label[OF si2] same_incidence_get_label[OF si3],
          (simp_all add: m2_def m3_def)?)
  qed
qed

subsection \<open>Simplex sets\<close>

lemma set_insert_key [simp]: "set (insert_key k ks) = insert k (set ks)"
  by (auto simp: insert_key_def)

lemma distinct_insert_key [simp]: "distinct (insert_key k ks) = distinct ks"
  by (auto simp: insert_key_def)

lemma set_insert_keys [simp]: "set (insert_keys ks acc) = set ks \<union> set acc"
  by (induction ks arbitrary: acc) auto

lemma distinct_insert_keys [simp]: "distinct (insert_keys ks acc) = distinct acc"
  by (induction ks arbitrary: acc) auto

lemma set_intersection_keys [simp]: "set (intersection_keys xs ys) = set xs \<inter> set ys"
  by (auto simp: intersection_keys_def)

lemma distinct_intersection_keys: "distinct xs \<Longrightarrow> distinct (intersection_keys xs ys)"
  by (simp add: intersection_keys_def)

lemma co_boundary_edges_distinct:
  "co_boundary_edges m ns acc = Some r \<Longrightarrow> distinct acc \<Longrightarrow> distinct r"
  by (induction ns arbitrary: acc) (auto simp: Option.bind_eq_Some_conv)

lemma co_boundary_faces_distinct:
  "co_boundary_faces m es acc = Some r \<Longrightarrow> distinct acc \<Longrightarrow> distinct r"
  by (induction es arbitrary: acc) (auto simp: Option.bind_eq_Some_conv)

lemma co_boundary_tetrahedra_distinct:
  "co_boundary_tetrahedra m fs acc = Some r \<Longrightarrow> distinct acc \<Longrightarrow> distinct r"
  by (induction fs arbitrary: acc) (auto simp: Option.bind_eq_Some_conv)

lemma star_node_distinct:
  assumes "star_node m n = Some st"
  shows "distinct (ss_edges st)" and "distinct (ss_faces st)" and "distinct (ss_tetrahedra st)"
  using assms
  by (auto simp: star_node_def star_set_def ss_empty_def Option.bind_eq_Some_conv
      dest: co_boundary_edges_distinct co_boundary_faces_distinct
        co_boundary_tetrahedra_distinct)

lemma star_face_find:
  "find_face m f = Some fc \<Longrightarrow>
     star_face m f = Some \<lparr>ss_nodes = [], ss_edges = [], ss_faces = [f],
                            ss_tetrahedra = insert_keys (f_get_co_boundary fc) []\<rparr>"
  by (simp add: star_face_def star_set_def ss_empty_def)

lemma star_face_None: "find_face m f = None \<Longrightarrow> star_face m f = None"
  by (simp add: star_face_def star_set_def ss_empty_def)

lemma get_tet_loop_cases:
  "(if \<exists>t2\<in>set ts. t2 \<noteq> t then get_tet_loop t ts \<in> set ts \<and> get_tet_loop t ts \<noteq> t
    else get_tet_loop t ts = Undefined)"
  by (induction ts) auto

lemma singleton_list:
  assumes "distinct xs" and "set xs = {e}"
  shows "xs = [e]"
proof -
  from assms have "length xs = 1"
    by (metis One_nat_def card.empty card_insert_if distinct_card empty_iff finite.intros(1))
  with assms(2) show ?thesis by (cases xs) auto
qed

lemma intersection_unique:
  assumes "distinct xs"
  shows "(\<forall>e. set xs \<inter> set ys = {e} \<longrightarrow>
            length (intersection_keys xs ys) = 1 \<and> hd (intersection_keys xs ys) = e) \<and>
         (card (set xs \<inter> set ys) \<noteq> 1 \<longrightarrow> length (intersection_keys xs ys) \<noteq> 1)"
proof -
  have d: "distinct (intersection_keys xs ys)"
    by (rule distinct_intersection_keys[OF assms])
  have "length (intersection_keys xs ys) = card (set xs \<inter> set ys)"
    using distinct_card[OF d] by simp
  moreover have "\<And>e. set xs \<inter> set ys = {e} \<Longrightarrow> intersection_keys xs ys = [e]"
    using singleton_list[OF d] by simp
  ultimately show ?thesis by auto
qed

subsection \<open>Claim C10: the tetrahedron on the other side of a face\<close>

text \<open>
  C10. For a tetrahedron key \<open>t\<close> and an existing face \<open>f\<close>, \<^verbatim>\<open>get_tet(t, f)\<close> returns:
  it yields a co-tetrahedron of \<open>f\<close> different from \<open>t\<close> whenever \<open>f\<close> has one, and the
  invalid (default-constructed) key otherwise.
\<close>

theorem get_tet_other:
  assumes "find_face m f = Some fc"
  shows "\<exists>r. get_tet m t f = Some r \<and>
           (if \<exists>t2\<in>set (f_get_co_boundary fc). t2 \<noteq> t
            then r \<in> set (f_get_co_boundary fc) \<and> r \<noteq> t
            else r = Undefined)"
  using get_tet_loop_cases[of "insert_keys (f_get_co_boundary fc) []" t]
  by (auto simp: get_tet_def star_face_find[OF assms] split: if_splits)

theorem get_tet_other_witness:
  "find_face two_tets (Key 3) \<noteq> None \<and>
   get_tet two_tets (Key 0) (Key 3) = Some (Key 1) \<and>
   get_tet two_tets (Key 0) (Key 0) = Some Undefined"
proof -
  have f3: "find_face two_tets (Key 3) = mk_face [3, 5, 4] [0, 1]" by code_simp
  have f0: "find_face two_tets (Key 0) = mk_face [0, 3, 1] [0]" by code_simp
  from get_tet_other[OF f3[unfolded mk_face_def], of "Key 0"]
       get_tet_other[OF f0[unfolded mk_face_def], of "Key 0"] f3
  show ?thesis by (auto simp: mk_face_def)
qed

subsection \<open>Claim C2: the flags of a face\<close>

text \<open>
  C2. For a face \<open>f\<close> whose star holds one or two tetrahedra, \<^verbatim>\<open>update_flag(f)\<close> returns
  and leaves \<open>f\<close> boundary iff it has exactly one co-tetrahedron, and interface iff it has
  one co-tetrahedron with a nonzero label or two co-tetrahedra with different labels. On
  the two tetrahedra labelled 1 and 2 the shared face becomes interface and not boundary
  (the witness).
\<close>

theorem update_flag_face_flags:
  assumes "star_face m f = Some st_f"
    and "size_tetrahedra st_f = 1 \<or> size_tetrahedra st_f = 2"
    and "\<forall>t\<in>set (ss_tetrahedra st_f). exists_tetrahedron m t"
  shows "\<exists>m'. update_flag_face m f = Some m' \<and>
           is_boundary_face m' f = Some (size_tetrahedra st_f = 1) \<and>
           is_interface_face m' f =
             Some (size_tetrahedra st_f = 1 \<and> get_label m (ss_tetrahedra st_f ! 0) \<noteq> Some 0 \<or>
                   size_tetrahedra st_f = 2 \<and>
                     get_label m (ss_tetrahedra st_f ! 0) \<noteq> get_label m (ss_tetrahedra st_f ! 1))"
proof -
  from assms(1) obtain fc where fc: "find_face m f = Some fc"
    by (cases "find_face m f") (auto simp: star_face_None)
  have ex: "\<And>i. i < length (ss_tetrahedra st_f) \<Longrightarrow>
              \<exists>l. get_label m (ss_tetrahedra st_f ! i) = Some l"
    using assms(3) by (auto simp: exists_tetrahedron_def get_label_def)
  from assms(2) show ?thesis
  proof
    assume one: "size_tetrahedra st_f = 1"
    then obtain l where l: "get_label m (ss_tetrahedra st_f ! 0) = Some l"
      using ex[of 0] by (auto simp: size_tetrahedra_def)
    from one have hd: "hd (ss_tetrahedra st_f) = ss_tetrahedra st_f ! 0"
      by (cases "ss_tetrahedra st_f") (auto simp: size_tetrahedra_def)
    show ?thesis
      by (simp add: update_flag_face_closed fc assms(1) face_flags_def one hd l
          is_boundary_face_def is_interface_face_def find_put_face[OF fc])
  next
    assume two: "size_tetrahedra st_f = 2"
    then obtain l0 l1 where l: "get_label m (ss_tetrahedra st_f ! 0) = Some l0"
      "get_label m (ss_tetrahedra st_f ! Suc 0) = Some l1"
      using ex[of 0] ex[of "Suc 0"] by (auto simp: size_tetrahedra_def)
    show ?thesis
      by (simp add: update_flag_face_closed fc assms(1) face_flags_def two l
          is_boundary_face_def is_interface_face_def find_put_face[OF fc])
  qed
qed

theorem update_flag_face_flags_witness:
  "\<exists>m'. update_flag_face two_tets (Key 3) = Some m' \<and>
         is_boundary_face m' (Key 3) = Some False \<and>
         is_interface_face m' (Key 3) = Some True"
proof -
  have st: "star_face two_tets (Key 3) =
              Some \<lparr>ss_nodes = [], ss_edges = [], ss_faces = [Key 3],
                    ss_tetrahedra = [Key 0, Key 1]\<rparr>"
    by code_simp
  have n: "size_tetrahedra \<lparr>ss_nodes = [], ss_edges = [], ss_faces = [Key 3],
                    ss_tetrahedra = [Key 0, Key 1]\<rparr> = 1 \<or>
           size_tetrahedra \<lparr>ss_nodes = [], ss_edges = [], ss_faces = [Key 3],
                    ss_tetrahedra = [Key 0, Key 1]\<rparr> = 2"
    by (simp add: size_tetrahedra_def)
  have ex: "\<forall>t\<in>set (ss_tetrahedra \<lparr>ss_nodes = [], ss_edges = [], ss_faces = [Key 3],
                    ss_tetrahedra = [Key 0, Key 1]\<rparr>). exists_tetrahedron two_tets t"
    by code_simp
  have l: "get_label two_tets (Key 0) = Some 1" "get_label two_tets (Key 1) = Some 2"
    by code_simp+
  from update_flag_face_flags[OF st n ex] l show ?thesis
    by (simp add: size_tetrahedra_def)
qed

subsection \<open>Claim C5: the edge of two nodes, the face of three nodes\<close>

text \<open>
  C5. Given the stars of the nodes, \<^verbatim>\<open>get_edge(n1, n2)\<close> returns: it yields the edge common
  to both stars when there is exactly one, and the invalid key when there is none or more
  than one; \<^verbatim>\<open>get_face(n1, n2, n3)\<close> does the same with the faces common to three stars.
\<close>

theorem get_edge_get_face_unique:
  assumes "star_node m n1 = Some st1" and "star_node m n2 = Some st2"
    and "star_node m n3 = Some st3"
  shows "\<exists>e f. get_edge m n1 n2 = Some e \<and> get_face m n1 n2 n3 = Some f \<and>
           (\<forall>x. set (ss_edges st1) \<inter> set (ss_edges st2) = {x} \<longrightarrow> e = x) \<and>
           (card (set (ss_edges st1) \<inter> set (ss_edges st2)) \<noteq> 1 \<longrightarrow> e = Undefined) \<and>
           (\<forall>x. set (ss_faces st1) \<inter> set (ss_faces st2) \<inter> set (ss_faces st3) = {x} \<longrightarrow> f = x) \<and>
           (card (set (ss_faces st1) \<inter> set (ss_faces st2) \<inter> set (ss_faces st3)) \<noteq> 1
              \<longrightarrow> f = Undefined)"
proof -
  note e = intersection_unique[OF star_node_distinct(1)[OF assms(1)], of "ss_edges st2"]
  have "distinct (intersection_keys (ss_faces st1) (ss_faces st2))"
    by (rule distinct_intersection_keys[OF star_node_distinct(2)[OF assms(1)]])
  note f = intersection_unique[OF this, of "ss_faces st3"]
  from e f show ?thesis
    by (auto simp: get_edge_def get_face_def assms size_edges_def size_faces_def
        ss_intersection_def Let_def)
qed

theorem get_edge_get_face_unique_witness:
  "star_node two_tets (Key 0) \<noteq> None \<and> star_node two_tets (Key 4) \<noteq> None \<and>
   star_node two_tets (Key 1) \<noteq> None \<and>
   get_edge two_tets (Key 0) (Key 1) = Some (Key 0) \<and>
   get_face two_tets (Key 0) (Key 1) (Key 2) = Some (Key 0) \<and>
   get_edge two_tets (Key 0) (Key 4) = Some Undefined \<and>
   get_face two_tets (Key 0) (Key 4) (Key 1) = Some Undefined"
proof -
  have s0: "star_node two_tets (Key 0) =
              Some \<lparr>ss_nodes = [Key 0], ss_edges = [Key 0, Key 1, Key 2],
                    ss_faces = [Key 0, Key 1, Key 2], ss_tetrahedra = [Key 0]\<rparr>"
    by code_simp
  have s1: "star_node two_tets (Key 1) =
              Some \<lparr>ss_nodes = [Key 1], ss_edges = [Key 0, Key 3, Key 4, Key 6],
                    ss_faces = [Key 0, Key 1, Key 3, Key 4, Key 5],
                    ss_tetrahedra = [Key 0, Key 1]\<rparr>"
    by code_simp
  have s2: "star_node two_tets (Key 2) =
              Some \<lparr>ss_nodes = [Key 2], ss_edges = [Key 1, Key 3, Key 5, Key 7],
                    ss_faces = [Key 0, Key 2, Key 3, Key 4, Key 6],
                    ss_tetrahedra = [Key 0, Key 1]\<rparr>"
    by code_simp
  have s4: "star_node two_tets (Key 4) =
              Some \<lparr>ss_nodes = [Key 4], ss_edges = [Key 6, Key 7, Key 8],
                    ss_faces = [Key 4, Key 5, Key 6], ss_tetrahedra = [Key 1]\<rparr>"
    by code_simp
  from get_edge_get_face_unique[OF s0 s1 s2] get_edge_get_face_unique[OF s0 s4 s1] s0 s1 s4
  show ?thesis by auto
qed

subsection \<open>Closed form of the edge and node updates\<close>

lemma edge_scan_cong:
  "find_face m' = find_face m \<Longrightarrow> edge_scan m' fs acc = edge_scan m fs acc"
  by (induction m fs acc rule: edge_scan.induct)
     (auto simp: exists_face_def is_boundary_face_def is_interface_face_def
       cong: Option.bind_cong)

lemma node_scan_cong:
  "find_edge m' = find_edge m \<Longrightarrow> node_scan m' es acc = node_scan m es acc"
  by (induction m es acc rule: node_scan.induct)
     (auto simp: exists_edge_def is_boundary_edge_def is_interface_edge_def
       is_crossing_edge_def cong: Option.bind_cong)

lemma update_flag_edge_loop_closed:
  assumes "find_edge m e = Some ec0"
  shows "update_flag_edge_loop (put_edge m e ec) e fs i =
           map_option (\<lambda>(b', i', c').
               (put_edge m e (ec\<lparr>e_is_interface := i', e_is_boundary := b'\<rparr>), c'))
             (edge_scan m fs (e_is_boundary ec, e_is_interface ec, i))"
proof (induction fs arbitrary: ec i)
  case Nil
  have "ec\<lparr>e_is_interface := e_is_interface ec, e_is_boundary := e_is_boundary ec\<rparr> = ec"
    by simp
  then show ?case by simp
next
  case (Cons f fs)
  have fe: "\<And>x. find_edge (put_edge m e x) e = Some x"
    by (simp add: find_put_edge[OF assms])
  show ?case
  proof (cases "find_face m f")
    case None
    then show ?thesis
      by (simp add: exists_face_def Cons.IH)
  next
    case (Some fc)
    have b: "\<And>x. is_boundary_face (put_edge m e x) f = Some (f_is_boundary fc)"
      and it: "\<And>x. is_interface_face (put_edge m e x) f = Some (f_is_interface fc)"
      by (simp_all add: is_boundary_face_def is_interface_face_def Some)
    have b0: "is_boundary_face m f = Some (f_is_boundary fc)"
      and it0: "is_interface_face m f = Some (f_is_interface fc)"
      by (simp_all add: is_boundary_face_def is_interface_face_def Some)
    have sb: "\<And>x. set_boundary_edge (put_edge m e x) e True
                = Some (put_edge m e (x\<lparr>e_is_boundary := True\<rparr>))"
      and si: "\<And>x. set_interface_edge (put_edge m e x) e True
                = Some (put_edge m e (x\<lparr>e_is_interface := True\<rparr>))"
      by (simp_all add: set_boundary_edge_def set_interface_edge_def fe)
    show ?thesis
      by (cases "f_is_boundary fc"; cases "f_is_interface fc")
         (simp_all add: exists_face_def Some b it b0 it0 sb si Cons.IH)
  qed
qed


lemma update_flag_edge_closed:
  "update_flag_edge m e =
     do { ec \<leftarrow> find_edge m e;
          st_e \<leftarrow> star_edge m e;
          (b, i, c) \<leftarrow> edge_scan m (ss_faces st_e) (False, False, 0);
          Some (put_edge m e (ec\<lparr>e_is_interface := i, e_is_boundary := b,
                                 e_is_crossing := c > 2\<rparr>)) }"
proof (cases "find_edge m e")
  case None
  then show ?thesis by (simp add: update_flag_edge_def set_boundary_edge_def)
next
  case (Some ec)
  have fe: "\<And>x. find_edge (put_edge m e x) e = Some x"
    by (simp add: find_put_edge[OF Some])
  have w0: "set_boundary_edge m e False = Some (put_edge m e (ec\<lparr>e_is_boundary := False\<rparr>))"
    by (simp add: set_boundary_edge_def Some)
  have w: "\<And>x v. set_interface_edge (put_edge m e x) e v
              = Some (put_edge m e (x\<lparr>e_is_interface := v\<rparr>))"
    "\<And>x v. set_crossing_edge (put_edge m e x) e v
              = Some (put_edge m e (x\<lparr>e_is_crossing := v\<rparr>))"
    by (simp_all add: set_interface_edge_def set_crossing_edge_def fe)
  have st: "\<And>x. edge_topology x = edge_topology ec \<Longrightarrow>
              star_edge (put_edge m e x) e = star_edge m e"
    by (rule same_incidence_star(2)[OF same_incidence_put_edge[OF Some]])
  show ?thesis
  proof (cases "star_edge m e")
    case None
    then show ?thesis
      by (simp add: update_flag_edge_def Some w0 w st edge_topology_def)
  next
    case se: (Some st_e)
    show ?thesis
    proof (cases "edge_scan m (ss_faces st_e) (False, False, 0)")
      case None
      then show ?thesis
        by (simp add: update_flag_edge_def Some w0 w st edge_topology_def se
            update_flag_edge_loop_closed[OF Some])
    next
      case sc: (Some v)
      obtain b i c where v: "v = (b, i, c)" by (cases v)
      show ?thesis
        by (cases ec)
           (simp add: update_flag_edge_def Some w0 w st edge_topology_def se
            update_flag_edge_loop_closed[OF Some] sc v)
    qed
  qed
qed

lemma update_flag_node_loop_closed:
  assumes "find_node m n = Some nc0"
  shows "update_flag_node_loop (put_node m n nc) n es =
           map_option (\<lambda>(i', b', c').
               put_node m n (nc\<lparr>n_is_interface := i', n_is_boundary := b',
                                 n_is_crossing := c'\<rparr>))
             (node_scan m es (n_is_interface nc, n_is_boundary nc, n_is_crossing nc))"
proof (induction es arbitrary: nc)
  case Nil
  have "nc\<lparr>n_is_interface := n_is_interface nc, n_is_boundary := n_is_boundary nc,
           n_is_crossing := n_is_crossing nc\<rparr> = nc"
    by simp
  then show ?case by simp
next
  case (Cons e es)
  have fn: "\<And>x. find_node (put_node m n x) n = Some x"
    by (simp add: find_put_node[OF assms])
  show ?case
  proof (cases "find_edge m e")
    case None
    then show ?thesis
      by (simp add: exists_edge_def Cons.IH)
  next
    case (Some ec)
    have r: "\<And>x. is_boundary_edge (put_node m n x) e = Some (e_is_boundary ec)"
      "\<And>x. is_interface_edge (put_node m n x) e = Some (e_is_interface ec)"
      "\<And>x. is_crossing_edge (put_node m n x) e = Some (e_is_crossing ec)"
      "is_boundary_edge m e = Some (e_is_boundary ec)"
      "is_interface_edge m e = Some (e_is_interface ec)"
      "is_crossing_edge m e = Some (e_is_crossing ec)"
      by (simp_all add: is_boundary_edge_def is_interface_edge_def is_crossing_edge_def Some)
    have w: "\<And>x. set_boundary_node (put_node m n x) n True
                = Some (put_node m n (x\<lparr>n_is_boundary := True\<rparr>))"
      "\<And>x. set_interface_node (put_node m n x) n True
                = Some (put_node m n (x\<lparr>n_is_interface := True\<rparr>))"
      "\<And>x. set_crossing_node (put_node m n x) n True
                = Some (put_node m n (x\<lparr>n_is_crossing := True\<rparr>))"
      by (simp_all add: set_boundary_node_def set_interface_node_def set_crossing_node_def fn)
    show ?thesis
      by (cases "e_is_boundary ec"; cases "e_is_interface ec"; cases "e_is_crossing ec")
         (simp_all add: exists_edge_def Some r w Cons.IH)
  qed
qed

lemma update_flag_node_closed:
  "update_flag_node m n =
     do { nc \<leftarrow> find_node m n;
          st_n \<leftarrow> star_node m n;
          (i, b, c) \<leftarrow> node_scan m (ss_edges st_n) (False, False, False);
          x \<leftarrow> (if \<not> c \<and> i then crossing m n else Some False);
          Some (put_node m n (nc\<lparr>n_is_interface := i, n_is_boundary := b,
                                 n_is_crossing := c \<or> x\<rparr>)) }"
proof (cases "find_node m n")
  case None
  then show ?thesis by (simp add: update_flag_node_def set_interface_node_def)
next
  case (Some nc)
  have fn: "\<And>x. find_node (put_node m n x) n = Some x"
    by (simp add: find_put_node[OF Some])
  have w0: "set_interface_node m n False = Some (put_node m n (nc\<lparr>n_is_interface := False\<rparr>))"
    by (simp add: set_interface_node_def Some)
  have w: "\<And>x v. set_boundary_node (put_node m n x) n v
              = Some (put_node m n (x\<lparr>n_is_boundary := v\<rparr>))"
    "\<And>x v. set_crossing_node (put_node m n x) n v
              = Some (put_node m n (x\<lparr>n_is_crossing := v\<rparr>))"
    by (simp_all add: set_boundary_node_def set_crossing_node_def fn)
  have rd: "\<And>x. is_crossing_node (put_node m n x) n = Some (n_is_crossing x)"
    "\<And>x. is_interface_node (put_node m n x) n = Some (n_is_interface x)"
    by (simp_all add: is_crossing_node_def is_interface_node_def fn)
  have si: "\<And>x. node_topology x = node_topology nc \<Longrightarrow> same_incidence m (put_node m n x)"
    by (rule same_incidence_put_node[OF Some])
  have st: "\<And>x. node_topology x = node_topology nc \<Longrightarrow>
              star_node (put_node m n x) n = star_node m n"
    by (rule same_incidence_star(1)[OF si])
  have cr: "\<And>x. node_topology x = node_topology nc \<Longrightarrow>
              crossing (put_node m n x) n = crossing m n"
    by (rule same_incidence_crossing[OF si])
  show ?thesis
  proof (cases "star_node m n")
    case None
    then show ?thesis
      by (simp add: update_flag_node_def Some w0 w st node_topology_def)
  next
    case sn: (Some st_n)
    show ?thesis
    proof (cases "node_scan m (ss_edges st_n) (False, False, False)")
      case None
      then show ?thesis
        by (simp add: update_flag_node_def Some w0 w st node_topology_def sn
            update_flag_node_loop_closed[OF Some])
    next
      case sc: (Some v)
      obtain i b c where v: "v = (i, b, c)" by (cases v)
      show ?thesis
        by (cases nc; cases "crossing m n")
           (auto simp: update_flag_node_def Some w0 w st cr rd node_topology_def sn
            update_flag_node_loop_closed[OF Some] sc v)
    qed
  qed
qed

subsection \<open>What an update leaves alone\<close>

lemma update_flag_face_frame:
  assumes "update_flag_face m f = Some m'"
  shows "same_incidence m m'" and "find_node m' = find_node m" and "find_edge m' = find_edge m"
    and "k \<noteq> f \<Longrightarrow> find_face m' k = find_face m k"
proof -
  from assms obtain fc v where fc: "find_face m f = Some fc"
    and m': "m' = put_face m f (fc\<lparr>f_is_interface := snd v, f_is_boundary := fst v\<rparr>)"
    by (auto simp: update_flag_face_closed Option.bind_eq_Some_conv)
  show "same_incidence m m'" unfolding m'
    by (rule same_incidence_put_face[OF fc]) (simp add: face_topology_def)
  show "find_node m' = find_node m" "find_edge m' = find_edge m" by (simp_all add: m')
  show "k \<noteq> f \<Longrightarrow> find_face m' k = find_face m k"
    by (simp add: m' find_put_face[OF fc])
qed

lemma update_flag_edge_frame:
  assumes "update_flag_edge m e = Some m'"
  shows "same_incidence m m'" and "find_node m' = find_node m" and "find_face m' = find_face m"
    and "k \<noteq> e \<Longrightarrow> find_edge m' k = find_edge m k"
proof -
  from assms obtain ec b i c where ec: "find_edge m e = Some ec"
    and m': "m' = put_edge m e (ec\<lparr>e_is_interface := i, e_is_boundary := b,
                                 e_is_crossing := c\<rparr>)"
    by (auto simp: update_flag_edge_closed Option.bind_eq_Some_conv split: prod.splits)
  show "same_incidence m m'" unfolding m'
    by (rule same_incidence_put_edge[OF ec]) (simp add: edge_topology_def)
  show "find_node m' = find_node m" "find_face m' = find_face m" by (simp_all add: m')
  show "k \<noteq> e \<Longrightarrow> find_edge m' k = find_edge m k"
    by (simp add: m' find_put_edge[OF ec])
qed

lemma update_flag_node_frame:
  assumes "update_flag_node m n = Some m'"
  shows "same_incidence m m'" and "find_edge m' = find_edge m" and "find_face m' = find_face m"
    and "k \<noteq> n \<Longrightarrow> find_node m' k = find_node m k"
proof -
  from assms obtain nc b i c where nc: "find_node m n = Some nc"
    and m': "m' = put_node m n (nc\<lparr>n_is_interface := i, n_is_boundary := b,
                                 n_is_crossing := c\<rparr>)"
    by (auto simp: update_flag_node_closed Option.bind_eq_Some_conv split: prod.splits)
  show "same_incidence m m'" unfolding m'
    by (rule same_incidence_put_node[OF nc]) (simp add: node_topology_def)
  show "find_edge m' = find_edge m" "find_face m' = find_face m" by (simp_all add: m')
  show "k \<noteq> n \<Longrightarrow> find_node m' k = find_node m k"
    by (simp add: m' find_put_node[OF nc])
qed

lemma update_faces_frame:
  "update_faces m fs = Some m' \<Longrightarrow>
     same_incidence m m' \<and> find_node m' = find_node m \<and> find_edge m' = find_edge m \<and>
     (\<forall>k. k \<notin> set fs \<longrightarrow> find_face m' k = find_face m k)"
proof (induction fs arbitrary: m)
  case Nil
  then show ?case by simp
next
  case (Cons f fs)
  show ?case
  proof (cases "exists_face m f")
    case False
    with Cons.prems have "update_faces m fs = Some m'" by simp
    from Cons.IH[OF this] show ?thesis by simp
  next
    case True
    with Cons.prems obtain m1 where m1: "update_flag_face m f = Some m1"
      and r: "update_faces m1 fs = Some m'"
      by (auto simp: Option.bind_eq_Some_conv)
    from Cons.IH[OF r] update_flag_face_frame[OF m1] show ?thesis
      by (auto intro: same_incidence_trans)
  qed
qed

lemma update_edges_frame:
  "update_edges m es = Some m' \<Longrightarrow>
     same_incidence m m' \<and> find_node m' = find_node m \<and> find_face m' = find_face m \<and>
     (\<forall>k. k \<notin> set es \<longrightarrow> find_edge m' k = find_edge m k)"
proof (induction es arbitrary: m)
  case Nil
  then show ?case by simp
next
  case (Cons e es)
  show ?case
  proof (cases "exists_edge m e")
    case False
    with Cons.prems have "update_edges m es = Some m'" by simp
    from Cons.IH[OF this] show ?thesis by simp
  next
    case True
    with Cons.prems obtain m1 where m1: "update_flag_edge m e = Some m1"
      and r: "update_edges m1 es = Some m'"
      by (auto simp: Option.bind_eq_Some_conv)
    from Cons.IH[OF r] update_flag_edge_frame[OF m1] show ?thesis
      by (auto intro: same_incidence_trans)
  qed
qed

lemma update_nodes_frame:
  "update_nodes m ns = Some m' \<Longrightarrow>
     same_incidence m m' \<and> find_edge m' = find_edge m \<and> find_face m' = find_face m \<and>
     (\<forall>k. k \<notin> set ns \<longrightarrow> find_node m' k = find_node m k)"
proof (induction ns arbitrary: m)
  case Nil
  then show ?case by simp
next
  case (Cons n ns)
  show ?case
  proof (cases "exists_node m n")
    case False
    with Cons.prems have "update_nodes m ns = Some m'" by simp
    from Cons.IH[OF this] show ?thesis by simp
  next
    case True
    with Cons.prems obtain m1 where m1: "update_flag_node m n = Some m1"
      and r: "update_nodes m1 ns = Some m'"
      by (auto simp: Option.bind_eq_Some_conv)
    from Cons.IH[OF r] update_flag_node_frame[OF m1] show ?thesis
      by (auto intro: same_incidence_trans)
  qed
qed

lemma update_frame:
  assumes "update m s = Some m'"
  shows "same_incidence m m'"
    and "k \<notin> set (ss_nodes s) \<Longrightarrow> find_node m' k = find_node m k"
    and "k \<notin> set (ss_edges s) \<Longrightarrow> find_edge m' k = find_edge m k"
    and "k \<notin> set (ss_faces s) \<Longrightarrow> find_face m' k = find_face m k"
proof -
  from assms obtain m1 m2 where 1: "update_faces m (ss_faces s) = Some m1"
    and 2: "update_edges m1 (ss_edges s) = Some m2"
    and 3: "update_nodes m2 (ss_nodes s) = Some m'"
    by (auto simp: update_def Option.bind_eq_Some_conv)
  note f = update_faces_frame[OF 1] update_edges_frame[OF 2] update_nodes_frame[OF 3]
  from f show "same_incidence m m'" by (blast intro: same_incidence_trans)
  from f show "k \<notin> set (ss_nodes s) \<Longrightarrow> find_node m' k = find_node m k" by simp
  from f show "k \<notin> set (ss_edges s) \<Longrightarrow> find_edge m' k = find_edge m k" by simp
  from f show "k \<notin> set (ss_faces s) \<Longrightarrow> find_face m' k = find_face m k" by simp
qed

subsection \<open>Claim C9: the frame of \<open>set_label\<close>\<close>

text \<open>
  C9. When \<^verbatim>\<open>set_label(t, l)\<close> returns, the tetrahedra are those of before with the label
  of \<open>t\<close> set to \<open>l\<close>; positions and the boundary and co-boundary lists of all nodes, edges
  and faces are unchanged; and a node, edge or face outside the closure of \<open>t\<close> is
  unchanged altogether, flags included.
\<close>

theorem set_label_frame:
  assumes "set_label m t l = Some m'"
  shows "\<exists>tc cl_t. find_tetrahedron m t = Some tc \<and> closure_tetrahedron m t = Some cl_t \<and>
           m_tetrahedron_kernel m' = replace (m_tetrahedron_kernel m) t (tc\<lparr>t_label := l\<rparr>) \<and>
           map (map_option node_topology) (m_node_kernel m')
             = map (map_option node_topology) (m_node_kernel m) \<and>
           map (map_option edge_topology) (m_edge_kernel m')
             = map (map_option edge_topology) (m_edge_kernel m) \<and>
           map (map_option face_topology) (m_face_kernel m')
             = map (map_option face_topology) (m_face_kernel m) \<and>
           (\<forall>k. k \<noteq> t \<longrightarrow> find_tetrahedron m' k = find_tetrahedron m k) \<and>
           (\<forall>k. k \<notin> set (ss_nodes cl_t) \<longrightarrow> find_node m' k = find_node m k) \<and>
           (\<forall>k. k \<notin> set (ss_edges cl_t) \<longrightarrow> find_edge m' k = find_edge m k) \<and>
           (\<forall>k. k \<notin> set (ss_faces cl_t) \<longrightarrow> find_face m' k = find_face m k)"
proof -
  from assms obtain tc where tc: "find_tetrahedron m t = Some tc"
    by (auto simp: set_label_def Option.bind_eq_Some_conv)
  define m1 where "m1 = put_tetrahedron m t (tc\<lparr>t_label := l\<rparr>)"
  from assms tc obtain cl_t where cl1: "closure_tetrahedron m1 t = Some cl_t"
    and u: "update m1 cl_t = Some m'"
    by (auto simp: set_label_def Option.bind_eq_Some_conv m1_def Let_def)
  have ft: "\<And>k. find_tetrahedron m1 k = (if k = t then Some (tc\<lparr>t_label := l\<rparr>)
                                           else find_tetrahedron m k)"
    by (simp add: m1_def find_put_tetrahedron[OF tc])
  have bf: "\<And>ts acc. boundary_faces m1 ts acc = boundary_faces m ts acc"
  proof -
    fix ts acc show "boundary_faces m1 ts acc = boundary_faces m ts acc"
      by (induction ts arbitrary: acc) (auto simp: ft tc)
  qed
  have be: "\<And>fs acc. boundary_edges m1 fs acc = boundary_edges m fs acc"
  proof -
    fix fs acc show "boundary_edges m1 fs acc = boundary_edges m fs acc"
      by (induction fs arbitrary: acc) (auto simp: m1_def)
  qed
  have bn: "\<And>es acc. boundary_nodes m1 es acc = boundary_nodes m es acc"
  proof -
    fix es acc show "boundary_nodes m1 es acc = boundary_nodes m es acc"
      by (induction es arbitrary: acc) (auto simp: m1_def)
  qed
  have cl: "closure_tetrahedron m t = Some cl_t"
    using cl1 by (simp add: closure_tetrahedron_def closure_set_def bf be bn ft tc)
  note fr = update_frame[OF u]
  from fr(1) have tk: "m_tetrahedron_kernel m' = replace (m_tetrahedron_kernel m) t (tc\<lparr>t_label := l\<rparr>)"
    by (simp add: same_incidence_def m1_def put_tetrahedron_def)
  from fr(1) have top:
    "map (map_option node_topology) (m_node_kernel m')
       = map (map_option node_topology) (m_node_kernel m)"
    "map (map_option edge_topology) (m_edge_kernel m')
       = map (map_option edge_topology) (m_edge_kernel m)"
    "map (map_option face_topology) (m_face_kernel m')
       = map (map_option face_topology) (m_face_kernel m)"
    by (simp_all add: same_incidence_def m1_def)
  have other: "\<forall>k. k \<noteq> t \<longrightarrow> find_tetrahedron m' k = find_tetrahedron m k"
    using same_incidence_find_tetrahedron[OF fr(1)] by (simp add: ft)
  have "\<forall>k. k \<notin> set (ss_nodes cl_t) \<longrightarrow> find_node m' k = find_node m k"
    "\<forall>k. k \<notin> set (ss_edges cl_t) \<longrightarrow> find_edge m' k = find_edge m k"
    "\<forall>k. k \<notin> set (ss_faces cl_t) \<longrightarrow> find_face m' k = find_face m k"
    using fr(2,3,4) by (simp_all add: m1_def)
  with tc cl tk top other show ?thesis by blast
qed

theorem set_label_frame_witness:
  "\<exists>m'. set_label two_tets (Key 0) 7 = Some m' \<and>
         get_label m' (Key 0) = Some 7 \<and> get_label m' (Key 1) = Some 2 \<and>
         find_node m' (Key 4) = find_node two_tets (Key 4) \<and>
         find_edge m' (Key 8) = find_edge two_tets (Key 8) \<and>
         find_face m' (Key 6) = find_face two_tets (Key 6)"
proof -
  have "set_label two_tets (Key 0) 7 \<noteq> None" by code_simp
  then obtain m' where m': "set_label two_tets (Key 0) 7 = Some m'" by auto
  have cl: "closure_tetrahedron two_tets (Key 0) =
              Some \<lparr>ss_nodes = [Key 0, Key 1, Key 2, Key 3],
                    ss_edges = [Key 0, Key 3, Key 1, Key 4, Key 2, Key 5],
                    ss_faces = [Key 0, Key 1, Key 2, Key 3], ss_tetrahedra = [Key 0]\<rparr>"
    by code_simp
  have t0: "find_tetrahedron two_tets (Key 0) = mk_tet [0, 1, 2, 3] 1"
    and t1: "find_tetrahedron two_tets (Key 1) = mk_tet [3, 4, 5, 6] 2"
    by code_simp+
  have tk: "m_tetrahedron_kernel two_tets = [mk_tet [0, 1, 2, 3] 1, mk_tet [3, 4, 5, 6] 2]"
    by (simp add: two_tets_def)
  from set_label_frame[OF m'] cl t0 t1 tk m' show ?thesis
    by (auto simp: get_label_def mk_tet_def find_tetrahedron_def lookup_def replace_def)
qed

subsection \<open>Idempotence of the flag updates\<close>

lemma update_flag_face_idem:
  assumes "update_flag_face m f = Some m'"
  shows "update_flag_face m' f = Some m'"
proof -
  from assms obtain fc st v where fc: "find_face m f = Some fc"
    and st: "star_face m f = Some st" and v: "face_flags m st = Some v"
    and m': "m' = put_face m f (fc\<lparr>f_is_interface := snd v, f_is_boundary := fst v\<rparr>)"
    by (auto simp: update_flag_face_closed Option.bind_eq_Some_conv)
  note fr = update_flag_face_frame[OF assms]
  have f': "find_face m' f = Some (fc\<lparr>f_is_interface := snd v, f_is_boundary := fst v\<rparr>)"
    by (simp add: m' find_put_face[OF fc])
  show ?thesis
    by (simp add: update_flag_face_closed[of m'] f' same_incidence_star(3)[OF fr(1)] st
        face_flags_cong[OF fr(1)] v put_face_same[OF f'])
qed

lemma update_flag_face_stable:
  assumes "update_flag_face m f = Some m"
    and "same_incidence m m'" and "find_face m' f = find_face m f"
  shows "update_flag_face m' f = Some m'"
proof -
  from assms(1) obtain fc st v where fc: "find_face m f = Some fc"
    and st: "star_face m f = Some st" and v: "face_flags m st = Some v"
    and m: "m = put_face m f (fc\<lparr>f_is_interface := snd v, f_is_boundary := fst v\<rparr>)"
    by (auto simp: update_flag_face_closed Option.bind_eq_Some_conv)
  from arg_cong[OF m, of "\<lambda>x. find_face x f"]
  have e: "fc\<lparr>f_is_interface := snd v, f_is_boundary := fst v\<rparr> = fc"
    by (simp add: find_put_face[OF fc] fc)
  have f': "find_face m' f = Some fc" by (simp add: assms(3) fc)
  show ?thesis
    by (simp add: update_flag_face_closed[of m'] f' same_incidence_star(3)[OF assms(2)] st
        face_flags_cong[OF assms(2)] v e put_face_same[OF f'])
qed

lemma edge_scan_same:
  "same_incidence m m' \<Longrightarrow> find_face m' = find_face m \<Longrightarrow>
     edge_scan m' fs acc = edge_scan m fs acc"
  by (rule edge_scan_cong)

lemma update_flag_edge_idem:
  assumes "update_flag_edge m e = Some m'"
  shows "update_flag_edge m' e = Some m'"
proof -
  from assms obtain ec st b i c where ec: "find_edge m e = Some ec"
    and st: "star_edge m e = Some st"
    and v: "edge_scan m (ss_faces st) (False, False, 0) = Some (b, i, c)"
    and m': "m' = put_edge m e (ec\<lparr>e_is_interface := i, e_is_boundary := b,
                                    e_is_crossing := c > 2\<rparr>)"
    by (auto simp: update_flag_edge_closed Option.bind_eq_Some_conv split: prod.splits)
  note fr = update_flag_edge_frame[OF assms]
  have e': "find_edge m' e = Some (ec\<lparr>e_is_interface := i, e_is_boundary := b,
                                    e_is_crossing := c > 2\<rparr>)"
    by (simp add: m' find_put_edge[OF ec])
  show ?thesis
    by (simp add: update_flag_edge_closed[of m'] e' same_incidence_star(2)[OF fr(1)] st
        edge_scan_cong[OF fr(3)] v put_edge_same[OF e'])
qed

lemma update_flag_edge_stable:
  assumes "update_flag_edge m e = Some m"
    and "same_incidence m m'" and "find_face m' = find_face m"
    and "find_edge m' e = find_edge m e"
  shows "update_flag_edge m' e = Some m'"
proof -
  from assms(1) obtain ec st b i c where ec: "find_edge m e = Some ec"
    and st: "star_edge m e = Some st"
    and v: "edge_scan m (ss_faces st) (False, False, 0) = Some (b, i, c)"
    and m: "m = put_edge m e (ec\<lparr>e_is_interface := i, e_is_boundary := b,
                                    e_is_crossing := c > 2\<rparr>)"
    by (auto simp: update_flag_edge_closed Option.bind_eq_Some_conv split: prod.splits)
  from arg_cong[OF m, of "\<lambda>x. find_edge x e"]
  have e: "ec\<lparr>e_is_interface := i, e_is_boundary := b, e_is_crossing := c > 2\<rparr> = ec"
    by (simp add: find_put_edge[OF ec] ec)
  have e': "find_edge m' e = Some ec" by (simp add: assms(4) ec)
  show ?thesis
    by (simp add: update_flag_edge_closed[of m'] e' same_incidence_star(2)[OF assms(2)] st
        edge_scan_cong[OF assms(3)] v e put_edge_same[OF e'])
qed

lemma update_flag_node_idem:
  assumes "update_flag_node m n = Some m'"
  shows "update_flag_node m' n = Some m'"
proof -
  from assms obtain nc st i b c x where nc: "find_node m n = Some nc"
    and st: "star_node m n = Some st"
    and v: "node_scan m (ss_edges st) (False, False, False) = Some (i, b, c)"
    and x: "(if \<not> c \<and> i then crossing m n else Some False) = Some x"
    and m': "m' = put_node m n (nc\<lparr>n_is_interface := i, n_is_boundary := b,
                                    n_is_crossing := c \<or> x\<rparr>)"
    by (auto simp: update_flag_node_closed Option.bind_eq_Some_conv split: prod.splits)
  note fr = update_flag_node_frame[OF assms]
  have n': "find_node m' n = Some (nc\<lparr>n_is_interface := i, n_is_boundary := b,
                                    n_is_crossing := c \<or> x\<rparr>)"
    by (simp add: m' find_put_node[OF nc])
  show ?thesis
    using x v n'
    by (cases c; cases i)
       (simp_all add: update_flag_node_closed[of m'] same_incidence_star(1)[OF fr(1)] st
        node_scan_cong[OF fr(2)] same_incidence_crossing[OF fr(1)] put_node_same)
qed

lemma update_flag_node_stable:
  assumes "update_flag_node m n = Some m"
    and "same_incidence m m'" and "find_edge m' = find_edge m"
    and "find_node m' n = find_node m n"
  shows "update_flag_node m' n = Some m'"
proof -
  from assms(1) obtain nc st i b c x where nc: "find_node m n = Some nc"
    and st: "star_node m n = Some st"
    and v: "node_scan m (ss_edges st) (False, False, False) = Some (i, b, c)"
    and x: "(if \<not> c \<and> i then crossing m n else Some False) = Some x"
    and m: "m = put_node m n (nc\<lparr>n_is_interface := i, n_is_boundary := b,
                                    n_is_crossing := c \<or> x\<rparr>)"
    by (auto simp: update_flag_node_closed Option.bind_eq_Some_conv split: prod.splits)
  from arg_cong[OF m, of "\<lambda>x. find_node x n"]
  have e: "nc\<lparr>n_is_interface := i, n_is_boundary := b, n_is_crossing := c \<or> x\<rparr> = nc"
    by (simp add: find_put_node[OF nc] nc)
  have n': "find_node m' n = Some nc" by (simp add: assms(4) nc)
  show ?thesis
    using x v n' e
    by (cases c; cases i)
       (simp_all add: update_flag_node_closed[of m'] same_incidence_star(1)[OF assms(2)] st
        node_scan_cong[OF assms(3)] same_incidence_crossing[OF assms(2)] put_node_same)
qed

lemma update_faces_keeps_stable:
  "update_faces m fs = Some m' \<Longrightarrow> update_flag_face m f = Some m \<Longrightarrow>
     update_flag_face m' f = Some m'"
proof (induction fs arbitrary: m)
  case Nil
  then show ?case by simp
next
  case (Cons g fs)
  show ?case
  proof (cases "exists_face m g")
    case False
    with Cons show ?thesis by simp
  next
    case True
    with Cons.prems obtain m1 where m1: "update_flag_face m g = Some m1"
      and r: "update_faces m1 fs = Some m'"
      by (auto simp: Option.bind_eq_Some_conv)
    have "update_flag_face m1 f = Some m1"
    proof (cases "g = f")
      case True
      with m1 Cons.prems(2) show ?thesis by simp
    next
      case False
      from update_flag_face_frame(1)[OF m1] update_flag_face_frame(4)[OF m1, of f] False
      show ?thesis by (intro update_flag_face_stable[OF Cons.prems(2)]) auto
    qed
    from Cons.IH[OF r this] show ?thesis .
  qed
qed

lemma update_edges_keeps_stable:
  "update_edges m es = Some m' \<Longrightarrow> update_flag_edge m e = Some m \<Longrightarrow>
     update_flag_edge m' e = Some m'"
proof (induction es arbitrary: m)
  case Nil
  then show ?case by simp
next
  case (Cons g es)
  show ?case
  proof (cases "exists_edge m g")
    case False
    with Cons show ?thesis by simp
  next
    case True
    with Cons.prems obtain m1 where m1: "update_flag_edge m g = Some m1"
      and r: "update_edges m1 es = Some m'"
      by (auto simp: Option.bind_eq_Some_conv)
    have "update_flag_edge m1 e = Some m1"
    proof (cases "g = e")
      case True
      with m1 Cons.prems(2) show ?thesis by simp
    next
      case False
      from update_flag_edge_frame(1,3)[OF m1] update_flag_edge_frame(4)[OF m1, of e] False
      show ?thesis by (intro update_flag_edge_stable[OF Cons.prems(2)]) auto
    qed
    from Cons.IH[OF r this] show ?thesis .
  qed
qed

lemma update_nodes_keeps_stable:
  "update_nodes m ns = Some m' \<Longrightarrow> update_flag_node m n = Some m \<Longrightarrow>
     update_flag_node m' n = Some m'"
proof (induction ns arbitrary: m)
  case Nil
  then show ?case by simp
next
  case (Cons g ns)
  show ?case
  proof (cases "exists_node m g")
    case False
    with Cons show ?thesis by simp
  next
    case True
    with Cons.prems obtain m1 where m1: "update_flag_node m g = Some m1"
      and r: "update_nodes m1 ns = Some m'"
      by (auto simp: Option.bind_eq_Some_conv)
    have "update_flag_node m1 n = Some m1"
    proof (cases "g = n")
      case True
      with m1 Cons.prems(2) show ?thesis by simp
    next
      case False
      from update_flag_node_frame(1,2)[OF m1] update_flag_node_frame(4)[OF m1, of n] False
      show ?thesis by (intro update_flag_node_stable[OF Cons.prems(2)]) auto
    qed
    from Cons.IH[OF r this] show ?thesis .
  qed
qed

lemma update_faces_stable:
  "update_faces m fs = Some m' \<Longrightarrow> f \<in> set fs \<Longrightarrow> exists_face m f \<Longrightarrow>
     update_flag_face m' f = Some m'"
proof (induction fs arbitrary: m)
  case Nil
  then show ?case by simp
next
  case (Cons g fs)
  show ?case
  proof (cases "exists_face m g")
    case False
    with Cons.prems have r: "update_faces m fs = Some m'" and "f \<in> set fs"
      by auto
    from Cons.IH[OF this Cons.prems(3)] show ?thesis .
  next
    case True
    with Cons.prems obtain m1 where m1: "update_flag_face m g = Some m1"
      and r: "update_faces m1 fs = Some m'"
      by (auto simp: Option.bind_eq_Some_conv)
    have ex: "exists_face m1 f"
      using same_incidence_exists(3)[OF update_flag_face_frame(1)[OF m1]] Cons.prems(3)
      by simp
    show ?thesis
    proof (cases "f \<in> set fs")
      case True
      from Cons.IH[OF r True ex] show ?thesis .
    next
      case False
      with Cons.prems(2) have "g = f" by simp
      with update_flag_face_idem[OF m1] have "update_flag_face m1 f = Some m1" by simp
      from update_faces_keeps_stable[OF r this] show ?thesis .
    qed
  qed
qed

lemma update_edges_stable:
  "update_edges m es = Some m' \<Longrightarrow> e \<in> set es \<Longrightarrow> exists_edge m e \<Longrightarrow>
     update_flag_edge m' e = Some m'"
proof (induction es arbitrary: m)
  case Nil
  then show ?case by simp
next
  case (Cons g es)
  show ?case
  proof (cases "exists_edge m g")
    case False
    with Cons.prems have r: "update_edges m es = Some m'" and "e \<in> set es"
      by auto
    from Cons.IH[OF this Cons.prems(3)] show ?thesis .
  next
    case True
    with Cons.prems obtain m1 where m1: "update_flag_edge m g = Some m1"
      and r: "update_edges m1 es = Some m'"
      by (auto simp: Option.bind_eq_Some_conv)
    have ex: "exists_edge m1 e"
      using same_incidence_exists(2)[OF update_flag_edge_frame(1)[OF m1]] Cons.prems(3)
      by simp
    show ?thesis
    proof (cases "e \<in> set es")
      case True
      from Cons.IH[OF r True ex] show ?thesis .
    next
      case False
      with Cons.prems(2) have "g = e" by simp
      with update_flag_edge_idem[OF m1] have "update_flag_edge m1 e = Some m1" by simp
      from update_edges_keeps_stable[OF r this] show ?thesis .
    qed
  qed
qed

lemma update_nodes_stable:
  "update_nodes m ns = Some m' \<Longrightarrow> n \<in> set ns \<Longrightarrow> exists_node m n \<Longrightarrow>
     update_flag_node m' n = Some m'"
proof (induction ns arbitrary: m)
  case Nil
  then show ?case by simp
next
  case (Cons g ns)
  show ?case
  proof (cases "exists_node m g")
    case False
    with Cons.prems have r: "update_nodes m ns = Some m'" and "n \<in> set ns"
      by auto
    from Cons.IH[OF this Cons.prems(3)] show ?thesis .
  next
    case True
    with Cons.prems obtain m1 where m1: "update_flag_node m g = Some m1"
      and r: "update_nodes m1 ns = Some m'"
      by (auto simp: Option.bind_eq_Some_conv)
    have ex: "exists_node m1 n"
      using same_incidence_exists(1)[OF update_flag_node_frame(1)[OF m1]] Cons.prems(3)
      by simp
    show ?thesis
    proof (cases "n \<in> set ns")
      case True
      from Cons.IH[OF r True ex] show ?thesis .
    next
      case False
      with Cons.prems(2) have "g = n" by simp
      with update_flag_node_idem[OF m1] have "update_flag_node m1 n = Some m1" by simp
      from update_nodes_keeps_stable[OF r this] show ?thesis .
    qed
  qed
qed

lemma update_faces_fixed:
  "(\<And>f. f \<in> set fs \<Longrightarrow> exists_face m f \<Longrightarrow> update_flag_face m f = Some m) \<Longrightarrow>
     update_faces m fs = Some m"
  by (induction fs) auto

lemma update_edges_fixed:
  "(\<And>e. e \<in> set es \<Longrightarrow> exists_edge m e \<Longrightarrow> update_flag_edge m e = Some m) \<Longrightarrow>
     update_edges m es = Some m"
  by (induction es) auto

lemma update_nodes_fixed:
  "(\<And>n. n \<in> set ns \<Longrightarrow> exists_node m n \<Longrightarrow> update_flag_node m n = Some m) \<Longrightarrow>
     update_nodes m ns = Some m"
  by (induction ns) auto

subsection \<open>Claim C8: flag propagation is idempotent\<close>

text \<open>
  C8. When \<^verbatim>\<open>update(S)\<close> returns the mesh \<open>m'\<close>, a second \<^verbatim>\<open>update(S)\<close> on \<open>m'\<close> returns
  \<open>m'\<close> again: every simplex keeps the boundary, interface and crossing flags of the first
  call.
\<close>

theorem update_idempotent:
  assumes "update m s = Some m'"
  shows "update m' s = Some m'"
proof -
  from assms obtain m1 m2 where 1: "update_faces m (ss_faces s) = Some m1"
    and 2: "update_edges m1 (ss_edges s) = Some m2"
    and 3: "update_nodes m2 (ss_nodes s) = Some m'"
    by (auto simp: update_def Option.bind_eq_Some_conv)
  note f1 = update_faces_frame[OF 1] and f2 = update_edges_frame[OF 2]
    and f3 = update_nodes_frame[OF 3]
  from f2 f3 have s12: "same_incidence m1 m'" and s2: "same_incidence m2 m'"
    by (auto intro: same_incidence_trans)
  from f1 s12 have s0: "same_incidence m m'" by (auto intro: same_incidence_trans)
  have faces: "update_faces m' (ss_faces s) = Some m'"
  proof (rule update_faces_fixed)
    fix f assume f: "f \<in> set (ss_faces s)" and "exists_face m' f"
    then have "exists_face m f" by (simp add: same_incidence_exists(3)[OF s0])
    from update_faces_stable[OF 1 f this] have "update_flag_face m1 f = Some m1" .
    then show "update_flag_face m' f = Some m'"
      using f2 f3 by (intro update_flag_face_stable[OF _ s12]) auto
  qed
  have edges: "update_edges m' (ss_edges s) = Some m'"
  proof (rule update_edges_fixed)
    fix e assume e: "e \<in> set (ss_edges s)" and "exists_edge m' e"
    then have "exists_edge m1 e" by (simp add: same_incidence_exists(2)[OF s12])
    from update_edges_stable[OF 2 e this] have "update_flag_edge m2 e = Some m2" .
    then show "update_flag_edge m' e = Some m'"
      using f3 by (intro update_flag_edge_stable[OF _ s2]) auto
  qed
  have nodes: "update_nodes m' (ss_nodes s) = Some m'"
  proof (rule update_nodes_fixed)
    fix n assume n: "n \<in> set (ss_nodes s)" and "exists_node m' n"
    then have "exists_node m2 n" by (simp add: same_incidence_exists(1)[OF s2])
    from update_nodes_stable[OF 3 n this] show "update_flag_node m' n = Some m'" .
  qed
  show ?thesis by (simp add: update_def faces edges nodes)
qed

theorem update_idempotent_witness:
  "\<exists>m'. update two_tets (all_simplices two_tets) = Some m' \<and>
         update m' (all_simplices two_tets) = Some m' \<and>
         is_interface_face m' (Key 3) = Some True \<and> m' \<noteq> two_tets"
proof -
  have "update two_tets (all_simplices two_tets) \<noteq> None" by code_simp
  then obtain m' where m': "update two_tets (all_simplices two_tets) = Some m'" by auto
  have i: "Option.bind (update two_tets (all_simplices two_tets))
             (\<lambda>m. is_interface_face m (Key 3)) = Some True"
    by code_simp
  have j: "is_interface_face two_tets (Key 3) = Some False" by code_simp
  from update_idempotent[OF m'] m' i j show ?thesis by auto
qed

subsection \<open>The rule of a node\<close>

lemma node_scan_or:
  "node_scan m es (i, b, c) = Some (i', b', c') \<Longrightarrow>
     i' = (i \<or> (\<exists>e\<in>set es. is_interface_edge m e = Some True)) \<and>
     b' = (b \<or> (\<exists>e\<in>set es. is_boundary_edge m e = Some True)) \<and>
     c' = (c \<or> (\<exists>e\<in>set es. is_crossing_edge m e = Some True))"
proof (induction es arbitrary: i b c)
  case Nil
  then show ?case by simp
next
  case (Cons e es)
  show ?case
  proof (cases "find_edge m e")
    case None
    with Cons.prems have "node_scan m es (i, b, c) = Some (i', b', c')"
      by (simp add: exists_edge_def)
    from Cons.IH[OF this] None show ?thesis
      by (simp add: is_interface_edge_def is_boundary_edge_def is_crossing_edge_def)
  next
    case (Some ec)
    with Cons.prems have "node_scan m es (i \<or> e_is_interface ec, b \<or> e_is_boundary ec,
        c \<or> e_is_crossing ec) = Some (i', b', c')"
      by (simp add: exists_edge_def is_interface_edge_def is_boundary_edge_def
          is_crossing_edge_def)
    from Cons.IH[OF this] Some show ?thesis
      by (auto simp: is_interface_edge_def is_boundary_edge_def is_crossing_edge_def)
  qed
qed

subsection \<open>The traversal and the label-connected components\<close>

lemma set_erase_tetrahedron [simp]:
  "set (ss_tetrahedra (ss_erase_tetrahedron st t)) = set (ss_tetrahedra st) - {t}"
  by (auto simp: ss_erase_tetrahedron_def erase_key_def)

lemma contains_tetrahedron_iff [simp]:
  "ss_contains_tetrahedron st t = (t \<in> set (ss_tetrahedra st))"
  by (simp add: ss_contains_tetrahedron_def contains_key_def)

lemma closure_tetrahedron_faces:
  assumes "closure_tetrahedron m t = Some cl"
  shows "\<exists>tc. find_tetrahedron m t = Some tc \<and> set (ss_faces cl) = set (t_get_boundary tc)"
  using assms
  by (auto simp: closure_tetrahedron_def closure_set_def ss_empty_def Option.bind_eq_Some_conv)

lemma find_tetrahedron_Undefined [simp]: "find_tetrahedron m Undefined = None"
  by (simp add: find_tetrahedron_def lookup_def)

lemma consistent_exists:
  "tetrahedron_consistent m t \<Longrightarrow> \<exists>tc. find_tetrahedron m t = Some tc"
  by (auto simp: tetrahedron_consistent_def split: option.splits)

lemma get_tet_across:
  assumes c: "tetrahedron_consistent m t"
    and tc: "find_tetrahedron m t = Some tc"
    and f: "f \<in> set (t_get_boundary tc)"
    and g: "get_tet m t f = Some t2"
  shows "t2 = Undefined \<or>
         (t2 \<noteq> t \<and> (\<exists>tc2. find_tetrahedron m t2 = Some tc2 \<and> f \<in> set (t_get_boundary tc2)))"
    and "\<And>v vc. tetrahedron_consistent m v \<Longrightarrow> find_tetrahedron m v = Some vc \<Longrightarrow>
           f \<in> set (t_get_boundary vc) \<Longrightarrow> v \<noteq> t \<Longrightarrow> t2 = v"
proof -
  from c tc f have fcs: "face_consistent m t f"
    by (auto simp: tetrahedron_consistent_def)
  then obtain fc where fc: "find_face m f = Some fc"
    and tin: "t \<in> set (f_get_co_boundary fc)"
    and cd: "card (set (f_get_co_boundary fc)) \<le> 2"
    and bk: "\<forall>t'\<in>set (f_get_co_boundary fc).
              case find_tetrahedron m t' of None \<Rightarrow> False
              | Some tc' \<Rightarrow> f \<in> set (t_get_boundary tc')"
    by (auto simp: face_consistent_def split: option.splits)
  from g fc have t2: "t2 = get_tet_loop t (insert_keys (f_get_co_boundary fc) [])"
    by (simp add: get_tet_def star_face_find[OF fc])
  have lp: "\<exists>x\<in>set (f_get_co_boundary fc). x \<noteq> t \<Longrightarrow>
              t2 \<in> set (f_get_co_boundary fc) \<and> t2 \<noteq> t"
    and lp0: "\<not> (\<exists>x\<in>set (f_get_co_boundary fc). x \<noteq> t) \<Longrightarrow> t2 = Undefined"
    using get_tet_loop_cases[of "insert_keys (f_get_co_boundary fc) []" t] t2
    by (auto split: if_splits)
  show "t2 = Undefined \<or>
         (t2 \<noteq> t \<and> (\<exists>tc2. find_tetrahedron m t2 = Some tc2 \<and> f \<in> set (t_get_boundary tc2)))"
  proof (cases "\<exists>x\<in>set (f_get_co_boundary fc). x \<noteq> t")
    case True
    with lp have "t2 \<in> set (f_get_co_boundary fc)" "t2 \<noteq> t" by auto
    with bk show ?thesis by (auto split: option.splits)
  next
    case False
    with lp0 show ?thesis by auto
  qed
  fix v vc
  assume vcons: "tetrahedron_consistent m v" and vc: "find_tetrahedron m v = Some vc"
    and fv: "f \<in> set (t_get_boundary vc)" and ne: "v \<noteq> t"
  from vcons vc fv have "face_consistent m v f" by (auto simp: tetrahedron_consistent_def)
  with fc have vin: "v \<in> set (f_get_co_boundary fc)"
    by (auto simp: face_consistent_def)
  from vin ne lp have r: "t2 \<in> set (f_get_co_boundary fc)" "t2 \<noteq> t" by auto
  have "{t, v, t2} \<subseteq> set (f_get_co_boundary fc)" using tin vin r by simp
  then have "card {t, v, t2} \<le> card (set (f_get_co_boundary fc))"
    by (intro card_mono) auto
  with cd have "card {t, v, t2} \<le> 2" by simp
  with ne r(2) show "t2 = v" by (cases "t2 = v") auto
qed

lemma label_adjacent_sym: "label_adjacent m t1 t2 \<Longrightarrow> label_adjacent m t2 t1"
  by (auto simp: label_adjacent_def split: option.splits)

lemma label_adjacency_mono: "A \<subseteq> B \<Longrightarrow> label_adjacency m A \<subseteq> label_adjacency m B"
  by (auto simp: label_adjacency_def)

lemma label_reach_mono:
  "A \<subseteq> B \<Longrightarrow> (t, u) \<in> (label_adjacency m A)\<^sup>* \<Longrightarrow> (t, u) \<in> (label_adjacency m B)\<^sup>*"
  using rtrancl_mono[OF label_adjacency_mono] by blast

lemma connected_component_walk:
  "connected_component m st t = Some r \<Longrightarrow>
     \<forall>u\<in>insert t (set (ss_tetrahedra st)). tetrahedron_consistent m u \<Longrightarrow>
     set (ss_tetrahedra r) \<subseteq> set (ss_tetrahedra st) - {t} \<and>
     (\<forall>u\<in>insert t (set (ss_tetrahedra st)) - set (ss_tetrahedra r).
         (t, u) \<in> (label_adjacency m (insert t (set (ss_tetrahedra st))))\<^sup>*) \<and>
     (\<forall>u\<in>insert t (set (ss_tetrahedra st)) - set (ss_tetrahedra r).
         \<forall>v\<in>set (ss_tetrahedra r). \<not> label_adjacent m u v)"
  "connected_component_loop m l t' fs st' = Some r' \<Longrightarrow>
     \<forall>u\<in>insert t' (set (ss_tetrahedra st')). tetrahedron_consistent m u \<Longrightarrow>
     t' \<notin> set (ss_tetrahedra st') \<Longrightarrow>
     \<exists>tc. find_tetrahedron m t' = Some tc \<and> t_label tc = l \<and> set fs \<subseteq> set (t_get_boundary tc) \<Longrightarrow>
     set (ss_tetrahedra r') \<subseteq> set (ss_tetrahedra st') \<and>
     (\<forall>u\<in>set (ss_tetrahedra st') - set (ss_tetrahedra r').
         (t', u) \<in> (label_adjacency m (insert t' (set (ss_tetrahedra st'))))\<^sup>*) \<and>
     (\<forall>u\<in>set (ss_tetrahedra st') - set (ss_tetrahedra r').
         \<forall>v\<in>set (ss_tetrahedra r'). \<not> label_adjacent m u v) \<and>
     (\<forall>f\<in>set fs. \<forall>v\<in>set (ss_tetrahedra r'). \<forall>vc. find_tetrahedron m v = Some vc \<longrightarrow>
         f \<in> set (t_get_boundary vc) \<longrightarrow> t_label vc \<noteq> l)"
proof (induction m st t and m l t' fs st' arbitrary: r and r'
       rule: connected_component_connected_component_loop.induct)
  case (1 m st_n t)
  from "1.prems"(1) obtain label cl_t where
    lb: "get_label m t = Some label" and cl: "closure_tetrahedron m t = Some cl_t"
    and lp: "connected_component_loop m label t (ss_faces cl_t) (ss_erase_tetrahedron st_n t)
               = Some r"
    by (auto simp: connected_component.simps Option.bind_eq_Some_conv)
  from closure_tetrahedron_faces[OF cl] obtain tc where
    tc: "find_tetrahedron m t = Some tc" and fs: "set (ss_faces cl_t) = set (t_get_boundary tc)"
    by blast
  from lb tc have l: "t_label tc = label" by (simp add: get_label_def)
  let ?S = "set (ss_tetrahedra st_n)"
  let ?R = "set (ss_tetrahedra r)"
  have ins: "insert t (set (ss_tetrahedra (ss_erase_tetrahedron st_n t))) = insert t ?S"
    by auto
  have w: "\<forall>u\<in>insert t (set (ss_tetrahedra (ss_erase_tetrahedron st_n t))).
             tetrahedron_consistent m u"
    using "1.prems"(2) by auto
  have nt: "t \<notin> set (ss_tetrahedra (ss_erase_tetrahedron st_n t))" by simp
  have ex: "\<exists>tc. find_tetrahedron m t = Some tc \<and> t_label tc = label \<and>
               set (ss_faces cl_t) \<subseteq> set (t_get_boundary tc)"
    using tc l fs by simp
  note ih = "1.IH"[OF lb cl lp w nt ex, unfolded ins]
  from ih have sub: "?R \<subseteq> ?S - {t}" by simp
  from ih have reach: "\<forall>u\<in>?S - {t} - ?R. (t, u) \<in> (label_adjacency m (insert t ?S))\<^sup>*"
    by simp
  from ih have closed: "\<forall>u\<in>?S - {t} - ?R. \<forall>v\<in>?R. \<not> label_adjacent m u v"
    by simp
  from ih have nb: "\<forall>f\<in>set (t_get_boundary tc). \<forall>v\<in>?R. \<forall>vc. find_tetrahedron m v = Some vc \<longrightarrow>
         f \<in> set (t_get_boundary vc) \<longrightarrow> t_label vc \<noteq> label"
    using fs by simp
  have "\<forall>v\<in>?R. \<not> label_adjacent m t v"
  proof (intro ballI notI)
    fix v
    assume v: "v \<in> ?R" and a: "label_adjacent m t v"
    from a tc obtain vc f where "find_tetrahedron m v = Some vc" "t_label tc = t_label vc"
      "f \<in> set (t_get_boundary tc)" "f \<in> set (t_get_boundary vc)"
      by (auto simp: label_adjacent_def split: option.splits)
    with nb l v show False by auto
  qed
  with sub reach closed show ?case by auto
next
  case (2 m label t st_n)
  then show ?case by simp
next
  case (3 m label t fit rest st_n)
  let ?S = "set (ss_tetrahedra st_n)"
  let ?R = "set (ss_tetrahedra r')"
  from "3.prems"(4) obtain tc where tc: "find_tetrahedron m t = Some tc"
    and l: "t_label tc = label" and fit: "fit \<in> set (t_get_boundary tc)"
    and rest: "set rest \<subseteq> set (t_get_boundary tc)"
    by auto
  have ex: "\<exists>tc. find_tetrahedron m t = Some tc \<and> t_label tc = label \<and>
               set rest \<subseteq> set (t_get_boundary tc)"
    using tc l rest by simp
  from "3.prems"(2) have ct: "tetrahedron_consistent m t" by simp
  from "3.prems"(1) obtain t2 where t2: "get_tet m t fit = Some t2"
    by (auto simp: Option.bind_eq_Some_conv)
  note across = get_tet_across[OF ct tc fit t2]
  have walk: "t2 \<in> ?S \<and> get_label m t2 = Some label"
    if v: "v \<in> ?S" and vc: "find_tetrahedron m v = Some vc"
      and fv: "fit \<in> set (t_get_boundary vc)" and lv: "t_label vc = label" for v vc
  proof -
    from v "3.prems"(2,3) have "tetrahedron_consistent m v" "v \<noteq> t" by auto
    from across(2)[OF this(1) vc fv this(2)] v vc lv show ?thesis
      by (simp add: get_label_def)
  qed
  show ?case
  proof (cases "t2 \<in> ?S \<and> get_label m t2 = Some label")
    case False
    have r: "connected_component_loop m label t rest st_n = Some r'"
    proof (cases "t2 \<in> ?S")
      case True
      with "3.prems"(1) t2 False show ?thesis
        by (auto simp: Option.bind_eq_Some_conv split: if_splits)
    next
      case False
      with "3.prems"(1) t2 show ?thesis by simp
    qed
    have ih: "?R \<subseteq> ?S \<and>
       (\<forall>u\<in>?S - ?R. (t, u) \<in> (label_adjacency m (insert t ?S))\<^sup>*) \<and>
       (\<forall>u\<in>?S - ?R. \<forall>v\<in>?R. \<not> label_adjacent m u v) \<and>
       (\<forall>f\<in>set rest. \<forall>v\<in>?R. \<forall>vc. find_tetrahedron m v = Some vc \<longrightarrow>
           f \<in> set (t_get_boundary vc) \<longrightarrow> t_label vc \<noteq> label)"
    proof (cases "t2 \<in> ?S")
      case True
      with False obtain label2 where l2: "get_label m t2 = Some label2" and ne: "label \<noteq> label2"
        using "3.prems"(1) t2 by (auto simp: Option.bind_eq_Some_conv split: if_splits)
      from True have c: "ss_contains_tetrahedron st_n t2" by simp
      from "3.IH"(3)[OF t2 c l2 ne r "3.prems"(2,3) ex] show ?thesis .
    next
      case False
      then have c: "\<not> ss_contains_tetrahedron st_n t2" by simp
      from "3.IH"(4)[OF t2 c r "3.prems"(2,3) ex] show ?thesis .
    qed
    have "\<forall>v\<in>?R. \<forall>vc. find_tetrahedron m v = Some vc \<longrightarrow>
           fit \<in> set (t_get_boundary vc) \<longrightarrow> t_label vc \<noteq> label"
      using walk False ih by blast
    with ih show ?thesis by simp
  next
    case True
    then have t2S: "t2 \<in> ?S" and l2: "get_label m t2 = Some label" by simp_all
    from t2S have c: "ss_contains_tetrahedron st_n t2" by simp
    from "3.prems"(1) t2 t2S l2 obtain st' where
      st': "connected_component m st_n t2 = Some st'"
      and r: "connected_component_loop m label t rest st' = Some r'"
      by (auto simp: Option.bind_eq_Some_conv)
    let ?M = "set (ss_tetrahedra st')"
    have w2: "\<forall>u\<in>insert t2 ?S. tetrahedron_consistent m u"
      using "3.prems"(2) t2S by auto
    note ih1 = "3.IH"(1)[OF t2 c l2 refl st' w2]
    from ih1 have sub1: "?M \<subseteq> ?S - {t2}" by simp
    have i2: "insert t2 ?S = ?S" using t2S by auto
    from ih1 have reach1: "\<forall>u\<in>?S - ?M. (t2, u) \<in> (label_adjacency m ?S)\<^sup>*"
      unfolding i2 by simp
    from ih1 have closed1: "\<forall>u\<in>?S - ?M. \<forall>v\<in>?M. \<not> label_adjacent m u v"
      unfolding i2 by simp
    have w3: "\<forall>u\<in>insert t ?M. tetrahedron_consistent m u"
      using "3.prems"(2) sub1 by auto
    have nt: "t \<notin> ?M" using "3.prems"(3) sub1 by auto
    note ih2 = "3.IH"(2)[OF t2 c l2 refl st' r w3 nt ex]
    from ih2 have sub2: "?R \<subseteq> ?M" by simp
    from ih2 have reach2: "\<forall>u\<in>?M - ?R. (t, u) \<in> (label_adjacency m (insert t ?M))\<^sup>*"
      by simp
    from ih2 have closed2: "\<forall>u\<in>?M - ?R. \<forall>v\<in>?R. \<not> label_adjacent m u v" by simp
    from ih2 have nb2: "\<forall>f\<in>set rest. \<forall>v\<in>?R. \<forall>vc. find_tetrahedron m v = Some vc \<longrightarrow>
           f \<in> set (t_get_boundary vc) \<longrightarrow> t_label vc \<noteq> label" by simp
    from across(1) t2S w2 obtain tc2 where ne: "t2 \<noteq> t"
      and tc2: "find_tetrahedron m t2 = Some tc2" and f2: "fit \<in> set (t_get_boundary tc2)"
      using "3.prems"(3) by (auto dest: consistent_exists)
    from l2 tc2 have "t_label tc2 = label" by (simp add: get_label_def)
    with tc tc2 l fit f2 ne have adj: "label_adjacent m t t2"
      by (auto simp: label_adjacent_def)
    then have step: "(t, t2) \<in> label_adjacency m (insert t ?S)"
      using t2S by (simp add: label_adjacency_def)
    have reach: "(t, u) \<in> (label_adjacency m (insert t ?S))\<^sup>*" if u: "u \<in> ?S - ?R" for u
    proof (cases "u \<in> ?M")
      case True
      with u reach2 have "(t, u) \<in> (label_adjacency m (insert t ?M))\<^sup>*" by simp
      moreover have "insert t ?M \<subseteq> insert t ?S" using sub1 by auto
      ultimately show ?thesis by (rule label_reach_mono[rotated])
    next
      case False
      with u reach1 have "(t2, u) \<in> (label_adjacency m ?S)\<^sup>*" by simp
      moreover have "?S \<subseteq> insert t ?S" by auto
      ultimately have "(t2, u) \<in> (label_adjacency m (insert t ?S))\<^sup>*"
        by (rule label_reach_mono[rotated])
      with step show ?thesis by (rule converse_rtrancl_into_rtrancl)
    qed
    have closed: "\<not> label_adjacent m u v" if u: "u \<in> ?S - ?R" and v: "v \<in> ?R" for u v
    proof (cases "u \<in> ?M")
      case True
      with u v closed2 show ?thesis by simp
    next
      case False
      with u v sub2 closed1 show ?thesis by auto
    qed
    have nbf: "t_label vc \<noteq> label"
      if v: "v \<in> ?R" and vc: "find_tetrahedron m v = Some vc"
        and fv: "fit \<in> set (t_get_boundary vc)" for v vc
    proof
      assume "t_label vc = label"
      moreover from v sub2 sub1 have vS: "v \<in> ?S" by auto
      moreover from vS "3.prems"(2,3) have "tetrahedron_consistent m v" "v \<noteq> t" by auto
      ultimately have "t2 = v" using across(2) vc fv by blast
      with v sub2 sub1 show False by auto
    qed
    from sub1 sub2 reach closed nbf nb2 show ?thesis by auto
  qed
qed

lemma sym_label_adjacency: "sym (label_adjacency m S)"
  by (auto simp: sym_def label_adjacency_def intro: label_adjacent_sym)

lemma label_reach_sym:
  "(t, u) \<in> (label_adjacency m S)\<^sup>* \<Longrightarrow> (u, t) \<in> (label_adjacency m S)\<^sup>*"
proof -
  assume a: "(t, u) \<in> (label_adjacency m S)\<^sup>*"
  have "sym ((label_adjacency m S)\<^sup>*)" by (rule sym_rtrancl[OF sym_label_adjacency])
  from symD[OF this a] show ?thesis .
qed

lemma label_reach_in:
  "(t, u) \<in> (label_adjacency m S)\<^sup>* \<Longrightarrow> t \<in> S \<Longrightarrow> u \<in> S"
  by (induction rule: rtrancl_induct) (auto simp: label_adjacency_def)

lemma label_component_self: "t \<in> label_component m S t"
  by (simp add: label_component_def)

lemma label_component_subset: "t \<in> S \<Longrightarrow> label_component m S t \<subseteq> S"
  by (auto simp: label_component_def dest: label_reach_in)

lemma label_component_eq:
  "u \<in> label_component m S t \<Longrightarrow> label_component m S u = label_component m S t"
proof -
  assume "u \<in> label_component m S t"
  then have tu: "(t, u) \<in> (label_adjacency m S)\<^sup>*" by (simp add: label_component_def)
  from label_reach_sym[OF tu] have ut: "(u, t) \<in> (label_adjacency m S)\<^sup>*" .
  have "(u, v) \<in> (label_adjacency m S)\<^sup>* \<longleftrightarrow> (t, v) \<in> (label_adjacency m S)\<^sup>*" for v
    using rtrancl_trans[OF tu] rtrancl_trans[OF ut] by blast
  then show ?thesis by (simp add: label_component_def)
qed

text \<open>What one call of the traversal removes is the component of the tetrahedron.\<close>

lemma connected_component_removes:
  assumes cc: "connected_component m st t = Some r"
    and t: "t \<in> set (ss_tetrahedra st)"
    and w: "\<forall>u\<in>set (ss_tetrahedra st). tetrahedron_consistent m u"
  shows "set (ss_tetrahedra r) = set (ss_tetrahedra st) - label_component m (set (ss_tetrahedra st)) t"
proof -
  define S where "S = set (ss_tetrahedra st)"
  define R where "R = set (ss_tetrahedra r)"
  have i: "insert t S = S" using t by (auto simp: S_def)
  from w t have w': "\<forall>u\<in>insert t (set (ss_tetrahedra st)). tetrahedron_consistent m u" by simp
  note walk = connected_component_walk(1)[OF cc w', folded S_def R_def, unfolded i]
  from walk have sub: "R \<subseteq> S - {t}" by (rule conjunct1)
  from walk have reach: "\<forall>u\<in>S - R. (t, u) \<in> (label_adjacency m S)\<^sup>*"
    by (rule conjunct1[OF conjunct2])
  from walk have closed: "\<forall>u\<in>S - R. \<forall>v\<in>R. \<not> label_adjacent m u v"
    by (rule conjunct2[OF conjunct2])
  have inS: "u \<in> S - R" if "(t, u) \<in> (label_adjacency m S)\<^sup>*" for u
    using that
  proof (induction rule: rtrancl_induct)
    case base
    from t sub show ?case by (auto simp: S_def)
  next
    case (step y z)
    from step.hyps(2) have z: "z \<in> S" and a: "label_adjacent m y z"
      by (simp_all add: label_adjacency_def)
    from closed step.IH a have "z \<notin> R" by blast
    with z show ?case by simp
  qed
  have "R = S - label_component m S t"
  proof (rule set_eqI, rule iffI)
    fix u
    assume u: "u \<in> R"
    with sub have "u \<in> S" by blast
    moreover have "u \<notin> label_component m S t"
    proof
      assume "u \<in> label_component m S t"
      then have "(t, u) \<in> (label_adjacency m S)\<^sup>*" by (simp add: label_component_def)
      from inS[OF this] u show False by simp
    qed
    ultimately show "u \<in> S - label_component m S t" by simp
  next
    fix u
    assume u: "u \<in> S - label_component m S t"
    show "u \<in> R"
    proof (rule ccontr)
      assume "u \<notin> R"
      with u reach have "(t, u) \<in> (label_adjacency m S)\<^sup>*" by simp
      with u show False by (simp add: label_component_def)
    qed
  qed
  then show ?thesis by (simp add: S_def R_def)
qed

lemma label_component_rest:
  assumes u: "u \<in> S - label_component m S t"
  shows "label_component m (S - label_component m S t) u = label_component m S u"
proof -
  let ?C = "label_component m S t"
  have "(u, v) \<in> (label_adjacency m (S - ?C))\<^sup>*" if "(u, v) \<in> (label_adjacency m S)\<^sup>*" for v
    using that
  proof (induction rule: rtrancl_induct)
    case base
    show ?case by simp
  next
    case (step y z)
    from step.IH u have y: "y \<in> S - ?C" by (auto dest: label_reach_in)
    from step.hyps(2) have z: "z \<in> S" and a: "label_adjacent m y z"
      by (simp_all add: label_adjacency_def)
    have "z \<notin> ?C"
    proof
      assume "z \<in> ?C"
      then have "(t, z) \<in> (label_adjacency m S)\<^sup>*" by (simp add: label_component_def)
      moreover from step.hyps(2) have "(z, y) \<in> label_adjacency m S"
        by (rule symD[OF sym_label_adjacency])
      ultimately have "(t, y) \<in> (label_adjacency m S)\<^sup>*" by (rule rtrancl_into_rtrancl)
      with y show False by (simp add: label_component_def)
    qed
    with y z a have "(y, z) \<in> label_adjacency m (S - ?C)"
      by (simp add: label_adjacency_def)
    with step.IH show ?case by (rule rtrancl_into_rtrancl)
  qed
  moreover have "(u, v) \<in> (label_adjacency m S)\<^sup>*"
    if "(u, v) \<in> (label_adjacency m (S - ?C))\<^sup>*" for v
    using that by (rule label_reach_mono[rotated]) auto
  ultimately show ?thesis by (auto simp: label_component_def)
qed

lemma label_connected_components_split:
  assumes t: "t \<in> S"
  shows "label_connected_components m S =
           insert (label_component m S t)
             (label_connected_components m (S - label_component m S t))"
    and "label_component m S t \<notin> label_connected_components m (S - label_component m S t)"
proof -
  let ?C = "label_component m S t"
  have a: "label_component m S u = ?C" if "u \<in> ?C" for u
    using that by (rule label_component_eq)
  have b: "label_component m (S - ?C) u = label_component m S u" if "u \<in> S - ?C" for u
    using that by (rule label_component_rest)
  from label_component_subset[OF t] have sub: "?C \<subseteq> S" .
  show "label_connected_components m S = insert ?C (label_connected_components m (S - ?C))"
  proof (rule set_eqI, rule iffI)
    fix X
    assume "X \<in> label_connected_components m S"
    then obtain u where u: "u \<in> S" and X: "X = label_component m S u"
      by (auto simp: label_connected_components_def)
    show "X \<in> insert ?C (label_connected_components m (S - ?C))"
    proof (cases "u \<in> ?C")
      case True
      with a X show ?thesis by simp
    next
      case False
      with u have "u \<in> S - ?C" by simp
      with b[OF this] X show ?thesis by (auto simp: label_connected_components_def)
    qed
  next
    fix X
    assume "X \<in> insert ?C (label_connected_components m (S - ?C))"
    then consider "X = ?C" | u where "u \<in> S - ?C" "X = label_component m (S - ?C) u"
      by (auto simp: label_connected_components_def)
    then show "X \<in> label_connected_components m S"
    proof cases
      case 1
      with t show ?thesis by (auto simp: label_connected_components_def)
    next
      case 2
      with b[OF 2(1)] show ?thesis by (auto simp: label_connected_components_def)
    qed
  qed
  show "?C \<notin> label_connected_components m (S - ?C)"
  proof
    assume "?C \<in> label_connected_components m (S - ?C)"
    then obtain u where u: "u \<in> S - ?C" and e: "?C = label_component m (S - ?C) u"
      by (auto simp: label_connected_components_def)
    from label_component_subset[OF u, of m] have "?C \<subseteq> S - ?C"
      unfolding e[symmetric] .
    with label_component_self[of t m S] show False by auto
  qed
qed

lemma finite_label_connected_components:
  "finite S \<Longrightarrow> finite (label_connected_components m S)"
  by (simp add: label_connected_components_def)

lemma card_label_connected_components:
  assumes "finite S" and "t \<in> S"
  shows "card (label_connected_components m S) =
           Suc (card (label_connected_components m (S - label_component m S t)))"
proof -
  let ?Q = "label_connected_components m (S - label_component m S t)"
  have f: "finite ?Q"
    using assms(1) by (intro finite_label_connected_components) simp
  note s = label_connected_components_split[OF assms(2), of m]
  have "card (insert (label_component m S t) ?Q) = Suc (card ?Q)"
    by (rule card_insert_disjoint[OF f s(2)])
  then show ?thesis by (subst s(1))
qed

lemma crossing_loop_components:
  "crossing_loop m st c = Some x \<Longrightarrow>
     \<forall>u\<in>set (ss_tetrahedra st). tetrahedron_consistent m u \<Longrightarrow>
     0 \<le> c \<Longrightarrow> c \<le> 2 \<Longrightarrow>
     x = (3 \<le> c + int (card (label_connected_components m (set (ss_tetrahedra st)))))"
proof (induction m st c arbitrary: x rule: crossing_loop.induct)
  case (1 m st_n c)
  let ?S = "set (ss_tetrahedra st_n)"
  show ?case
  proof (cases "0 < size_tetrahedra st_n")
    case False
    then have "?S = {}" by (simp add: size_tetrahedra_def)
    with False "1.prems" show ?thesis
      by (simp add: crossing_loop.simps[of m st_n] label_connected_components_def)
  next
    case True
    then have hd: "hd (ss_tetrahedra st_n) \<in> ?S" by (simp add: size_tetrahedra_def)
    note cd = card_label_connected_components[OF _ hd, of m, simplified]
    show ?thesis
    proof (cases "c = 2")
      case c2: True
      with True "1.prems"(1) cd show ?thesis
        by (simp add: crossing_loop.simps[of m st_n])
    next
      case False
      with True "1.prems"(1) obtain st' where
        st': "connected_component m st_n (hd (ss_tetrahedra st_n)) = Some st'"
        and x: "crossing_loop m st' (c + 1) = Some x"
        by (auto simp: crossing_loop.simps[of m st_n] Option.bind_eq_Some_conv)
      note rm = connected_component_removes[OF st' hd "1.prems"(2)]
      have w: "\<forall>u\<in>set (ss_tetrahedra st'). tetrahedron_consistent m u"
        using "1.prems"(2) rm by auto
      from "1.IH"[OF True False st' x w] "1.prems"(3,4) False
      have "x = (3 \<le> c + 1 + int (card (label_connected_components m (set (ss_tetrahedra st')))))"
        by simp
      with cd rm show ?thesis by simp
    qed
  qed
qed

subsection \<open>Claim C3: the flags of a node\<close>

text \<open>
  C3. When \<^verbatim>\<open>update_flag(n)\<close> returns on a node whose star is consistent (invariants 1
  and 4 of the spec: every face of a tetrahedron of the star has at most two
  co-tetrahedra, and boundary and co-boundary lists agree), the boundary and interface
  flags of \<open>n\<close> are the OR of the flags of the edges of its star, and \<open>n\<close> is crossing iff one
  of these edges is crossing, or \<open>n\<close> is interface and the tetrahedra of its star decompose
  into at least 3 label-connected components under same-label face adjacency.
\<close>

theorem update_flag_node_flags:
  assumes "update_flag_node m n = Some m'"
    and "star_node m n = Some st_n"
    and "\<forall>t\<in>set (ss_tetrahedra st_n). tetrahedron_consistent m t"
  shows "is_boundary_node m' n = Some (\<exists>e\<in>set (ss_edges st_n). is_boundary_edge m e = Some True) \<and>
         is_interface_node m' n = Some (\<exists>e\<in>set (ss_edges st_n). is_interface_edge m e = Some True) \<and>
         is_crossing_node m' n =
           Some ((\<exists>e\<in>set (ss_edges st_n). is_crossing_edge m e = Some True) \<or>
                 (\<exists>e\<in>set (ss_edges st_n). is_interface_edge m e = Some True) \<and>
                 3 \<le> card (label_connected_components m (set (ss_tetrahedra st_n))))"
proof -
  from assms(1,2) obtain nc i b c x where nc: "find_node m n = Some nc"
    and v: "node_scan m (ss_edges st_n) (False, False, False) = Some (i, b, c)"
    and x: "(if \<not> c \<and> i then crossing m n else Some False) = Some x"
    and m': "m' = put_node m n (nc\<lparr>n_is_interface := i, n_is_boundary := b,
                                    n_is_crossing := c \<or> x\<rparr>)"
    by (auto simp: update_flag_node_closed Option.bind_eq_Some_conv split: prod.splits)
  note o = node_scan_or[OF v]
  have cx: "(c \<or> x) =
      (c \<or> i \<and> 3 \<le> card (label_connected_components m (set (ss_tetrahedra st_n))))"
  proof (cases "\<not> c \<and> i")
    case True
    with x have "crossing_loop m st_n 0 = Some x"
      by (simp add: crossing_def assms(2))
    from crossing_loop_components[OF this assms(3)] True show ?thesis by simp
  next
    case False
    with x show ?thesis by auto
  qed
  show ?thesis
    using o cx
    by (simp add: m' is_boundary_node_def is_interface_node_def is_crossing_node_def
        find_put_node[OF nc])
qed

theorem update_flag_node_flags_witness:
  "(\<exists>m1 m0 m' st.
      update_faces four_tets (map Key [0 ..< 15]) = Some m1 \<and>
      update_edges m1 (map Key [0 ..< 21]) = Some m0 \<and>
      update_flag_node m0 (Key 0) = Some m' \<and>
      star_node m0 (Key 0) = Some st \<and>
      ss_tetrahedra st = [Key 0, Key 3, Key 1, Key 2] \<and>
      (\<forall>t\<in>set (ss_tetrahedra st). tetrahedron_consistent m0 t) \<and>
      label_adjacent m0 (Key 0) (Key 3) \<and>
      \<not> (\<exists>e\<in>set (ss_edges st). is_crossing_edge m0 e = Some True) \<and>
      is_interface_node m' (Key 0) = Some True \<and>
      is_crossing_node m' (Key 0) = Some True \<and>
      3 \<le> card (label_connected_components m0 (set (ss_tetrahedra st)))) \<and>
   (\<exists>m1 m0 m' st.
      update_faces three_around_edge (map Key [0 ..< 9]) = Some m1 \<and>
      update_edges m1 (map Key [0 ..< 10]) = Some m0 \<and>
      update_flag_node m0 (Key 0) = Some m' \<and>
      star_node m0 (Key 0) = Some st \<and>
      ss_tetrahedra st = [Key 0, Key 2, Key 1] \<and>
      (\<forall>t\<in>set (ss_tetrahedra st). tetrahedron_consistent m0 t) \<and>
      is_interface_node m' (Key 0) = Some True \<and>
      is_crossing_node m' (Key 0) = Some False \<and>
      card (label_connected_components m0 (set (ss_tetrahedra st))) < 3)"
proof (rule conjI)
  have "do { m1 \<leftarrow> update_faces four_tets (map Key [0 ..< 15]);
             m0 \<leftarrow> update_edges m1 (map Key [0 ..< 21]);
             m' \<leftarrow> update_flag_node m0 (Key 0);
             st \<leftarrow> star_node m0 (Key 0);
             Some (ss_tetrahedra st, list_all (tetrahedron_consistent m0) (ss_tetrahedra st),
                   list_ex (\<lambda>e. is_crossing_edge m0 e = Some True) (ss_edges st),
                   label_adjacent m0 (Key 0) (Key 3),
                   is_interface_node m' (Key 0), is_crossing_node m' (Key 0)) }
        = Some ([Key 0, Key 3, Key 1, Key 2], True, False, True, Some True, Some True)"
    by code_simp
  then have "\<exists>m1 m0 m' st.
      update_faces four_tets (map Key [0 ..< 15]) = Some m1 \<and>
      update_edges m1 (map Key [0 ..< 21]) = Some m0 \<and>
      update_flag_node m0 (Key 0) = Some m' \<and>
      star_node m0 (Key 0) = Some st \<and>
      ss_tetrahedra st = [Key 0, Key 3, Key 1, Key 2] \<and>
      list_all (tetrahedron_consistent m0) (ss_tetrahedra st) \<and>
      \<not> list_ex (\<lambda>e. is_crossing_edge m0 e = Some True) (ss_edges st) \<and>
      label_adjacent m0 (Key 0) (Key 3) \<and>
      is_interface_node m' (Key 0) = Some True \<and>
      is_crossing_node m' (Key 0) = Some True"
    unfolding Option.bind_eq_Some_conv by blast
  then obtain m1 m0 m' st where
    m1: "update_faces four_tets (map Key [0 ..< 15]) = Some m1"
    and m0: "update_edges m1 (map Key [0 ..< 21]) = Some m0"
    and m': "update_flag_node m0 (Key 0) = Some m'"
    and st: "star_node m0 (Key 0) = Some st"
    and ts: "ss_tetrahedra st = [Key 0, Key 3, Key 1, Key 2]"
    and w: "list_all (tetrahedron_consistent m0) (ss_tetrahedra st)"
    and c: "\<not> list_ex (\<lambda>e. is_crossing_edge m0 e = Some True) (ss_edges st)"
    and a: "label_adjacent m0 (Key 0) (Key 3)"
    and i: "is_interface_node m' (Key 0) = Some True"
    and x: "is_crossing_node m' (Key 0) = Some True"
    by blast
  from w have w': "\<forall>t\<in>set (ss_tetrahedra st). tetrahedron_consistent m0 t"
    by (simp add: list_all_iff)
  from c have c': "\<not> (\<exists>e\<in>set (ss_edges st). is_crossing_edge m0 e = Some True)"
    by (simp add: list_ex_iff)
  from update_flag_node_flags[OF m' st w'] x c'
  have "3 \<le> card (label_connected_components m0 (set (ss_tetrahedra st)))" by simp
  with m1 m0 m' st ts w' a c' i x
  show "\<exists>m1 m0 m' st.
      update_faces four_tets (map Key [0 ..< 15]) = Some m1 \<and>
      update_edges m1 (map Key [0 ..< 21]) = Some m0 \<and>
      update_flag_node m0 (Key 0) = Some m' \<and>
      star_node m0 (Key 0) = Some st \<and>
      ss_tetrahedra st = [Key 0, Key 3, Key 1, Key 2] \<and>
      (\<forall>t\<in>set (ss_tetrahedra st). tetrahedron_consistent m0 t) \<and>
      label_adjacent m0 (Key 0) (Key 3) \<and>
      \<not> (\<exists>e\<in>set (ss_edges st). is_crossing_edge m0 e = Some True) \<and>
      is_interface_node m' (Key 0) = Some True \<and>
      is_crossing_node m' (Key 0) = Some True \<and>
      3 \<le> card (label_connected_components m0 (set (ss_tetrahedra st)))"
    by blast
next
  have "do { m1 \<leftarrow> update_faces three_around_edge (map Key [0 ..< 9]);
             m0 \<leftarrow> update_edges m1 (map Key [0 ..< 10]);
             m' \<leftarrow> update_flag_node m0 (Key 0);
             st \<leftarrow> star_node m0 (Key 0);
             Some (ss_tetrahedra st, list_all (tetrahedron_consistent m0) (ss_tetrahedra st),
                   is_interface_node m' (Key 0), is_crossing_node m' (Key 0)) }
        = Some ([Key 0, Key 2, Key 1], True, Some True, Some False)"
    by code_simp
  then have "\<exists>m1 m0 m' st.
      update_faces three_around_edge (map Key [0 ..< 9]) = Some m1 \<and>
      update_edges m1 (map Key [0 ..< 10]) = Some m0 \<and>
      update_flag_node m0 (Key 0) = Some m' \<and>
      star_node m0 (Key 0) = Some st \<and>
      ss_tetrahedra st = [Key 0, Key 2, Key 1] \<and>
      list_all (tetrahedron_consistent m0) (ss_tetrahedra st) \<and>
      is_interface_node m' (Key 0) = Some True \<and>
      is_crossing_node m' (Key 0) = Some False"
    unfolding Option.bind_eq_Some_conv by blast
  then obtain m1 m0 m' st where
    m1: "update_faces three_around_edge (map Key [0 ..< 9]) = Some m1"
    and m0: "update_edges m1 (map Key [0 ..< 10]) = Some m0"
    and m': "update_flag_node m0 (Key 0) = Some m'"
    and st: "star_node m0 (Key 0) = Some st"
    and ts: "ss_tetrahedra st = [Key 0, Key 2, Key 1]"
    and w: "list_all (tetrahedron_consistent m0) (ss_tetrahedra st)"
    and i: "is_interface_node m' (Key 0) = Some True"
    and x: "is_crossing_node m' (Key 0) = Some False"
    by blast
  from w have w': "\<forall>t\<in>set (ss_tetrahedra st). tetrahedron_consistent m0 t"
    by (simp add: list_all_iff)
  from update_flag_node_flags[OF m' st w'] x i
  have "card (label_connected_components m0 (set (ss_tetrahedra st))) < 3" by auto
  with m1 m0 m' st ts w' i x
  show "\<exists>m1 m0 m' st.
      update_faces three_around_edge (map Key [0 ..< 9]) = Some m1 \<and>
      update_edges m1 (map Key [0 ..< 10]) = Some m0 \<and>
      update_flag_node m0 (Key 0) = Some m' \<and>
      star_node m0 (Key 0) = Some st \<and>
      ss_tetrahedra st = [Key 0, Key 2, Key 1] \<and>
      (\<forall>t\<in>set (ss_tetrahedra st). tetrahedron_consistent m0 t) \<and>
      is_interface_node m' (Key 0) = Some True \<and>
      is_crossing_node m' (Key 0) = Some False \<and>
      card (label_connected_components m0 (set (ss_tetrahedra st))) < 3"
    by blast
qed

subsection \<open>Claim C4: a refused collapse\<close>

text \<open>
  C4. When the kernel refuses the collapse of an edge, \<^verbatim>\<open>collapse\<close> returns the invalid
  node key and the mesh it was given: nothing is created, removed or merged and no flag or
  label is modified.
\<close>

theorem collapse_refused:
  assumes "get_nodes_edge m e = Some nodes"
    and "element_at nodes 0 = Some n0" and "element_at nodes 1 = Some n1"
    and "DEBUG \<longrightarrow> is_valid n0 \<and> is_valid n1"
    and "collapse_refuses K m e n0 n1"
  shows "\<exists>n. collapse DEBUG K m e = Some (n, m) \<and> \<not> is_valid n"
  using assms
  by (simp add: collapse_def edge_collapse_helper_def debug_assertion_def assertion_def
      is_valid_def)

theorem collapse_refused_witness:
  "get_nodes_edge two_tets (Key 3) = Some [Key 1, Key 2] \<and>
   collapse_refuses refusing_kernel two_tets (Key 3) (Key 1) (Key 2) \<and>
   collapse True refusing_kernel two_tets (Key 3) = Some (Undefined, two_tets)"
proof -
  have g: "get_nodes_edge two_tets (Key 3) = Some [Key 1, Key 2]" by code_simp
  have a: "element_at [Key 1, Key 2] 0 = Some (Key 1)" "element_at [Key 1, Key 2] 1 = Some (Key 2)"
    by (simp_all add: element_at_def)
  have v: "True \<longrightarrow> is_valid (Key 1) \<and> is_valid (Key 2)" by (simp add: is_valid_def)
  have r: "collapse_refuses refusing_kernel two_tets (Key 3) (Key 1) (Key 2)"
    by (simp add: refusing_kernel_def)
  from collapse_refused[OF g a v r] g r show ?thesis by (auto simp: is_valid_def)
qed

end
